theory Spec2Isabelle
  imports Main
begin

section \<open>Python strings and lists\<close>

text \<open>
  A Python \<open>str\<close> is modelled as a \<open>string\<close>; a \<open>char\<close> stands for a code point
  below 256. \<open>isspace\<close> lists the code points of that range that \<open>str.strip()\<close> removes:
  tab, line feed, vertical tab, form feed, carriage return, the four separators
  \<open>0x1C .. 0x1F\<close>, space, \<open>0x85\<close> and \<open>0xA0\<close>.
\<close>

definition isspace :: "char \<Rightarrow> bool" where
  "isspace c = (of_char c \<in> {9, 10, 11, 12, 13, 28, 29, 30, 31, 32, 133, 160 :: nat})"

text \<open>\<open>s.strip()\<close>\<close>

definition strip :: "string \<Rightarrow> string" where
  "strip s = rev (dropWhile isspace (rev (dropWhile isspace s)))"

text \<open>\<open>s.startswith(p)\<close>\<close>

definition startswith :: "string \<Rightarrow> string \<Rightarrow> bool" where
  "startswith p s = (take (length p) s = p)"

text \<open>\<open>sub in s\<close> for strings: \<open>sub\<close> occurs in \<open>s\<close> as a contiguous run.\<close>

fun contains :: "string \<Rightarrow> string \<Rightarrow> bool" where
  "contains sub [] = (sub = [])"
| "contains sub (c # cs) = (startswith sub (c # cs) \<or> contains sub cs)"

text \<open>
  \<open>s.split(sep)\<close> for a non-empty separator: the pieces between the occurrences of
  \<open>sep\<close>, found from left to right without overlap; always at least one piece.
  \<open>acc\<close> holds the current piece, reversed. (Python raises \<open>ValueError\<close> for an empty
  separator; the program splits on a literal of two characters.)
\<close>

fun split_acc :: "string \<Rightarrow> string \<Rightarrow> string \<Rightarrow> string list" where
  "split_acc sep acc [] = [rev acc]"
| "split_acc sep acc (c # cs) =
     (if startswith sep (c # cs) then rev acc # split_acc sep [] (drop (length sep - 1) cs)
      else split_acc sep (c # acc) cs)"

definition split :: "string \<Rightarrow> string \<Rightarrow> string list" where
  "split sep s = split_acc sep [] s"

text \<open>
  \<open>s.split(sep, 1)\<close> has a second element exactly when \<open>sep\<close> occurs in \<open>s\<close>: the text
  after the first occurrence. \<open>None\<close> stands for the \<open>IndexError\<close> of \<open>[1]\<close>.
\<close>

fun after_first :: "string \<Rightarrow> string \<Rightarrow> string option" where
  "after_first sep [] = (if sep = [] then Some [] else None)"
| "after_first sep (c # cs) =
     (if startswith sep (c # cs) then Some (drop (length sep) (c # cs))
      else after_first sep cs)"

text \<open>\<open>xs.index(x)\<close>: the first position of \<open>x\<close>; \<open>None\<close> stands for \<open>ValueError\<close>.\<close>

fun index :: "'a list \<Rightarrow> 'a \<Rightarrow> nat option" where
  "index [] x = None"
| "index (y # ys) x = (if y = x then Some 0 else map_option Suc (index ys x))"

text \<open>\<open>sep.join(xs)\<close>\<close>

fun join :: "string \<Rightarrow> string list \<Rightarrow> string" where
  "join sep [] = []"
| "join sep [x] = x"
| "join sep (x # y # ys) = x @ sep @ join sep (y # ys)"

text \<open>The decimal text of an \<open>int\<close>, as an f-string formats it.\<close>

definition digit :: "nat \<Rightarrow> char" where
  "digit d = char_of (48 + d)"

fun str_nat :: "nat \<Rightarrow> string" where
  "str_nat n = (if n < 10 then [digit n] else str_nat (n div 10) @ [digit (n mod 10)])"

declare str_nat.simps [simp del]

definition str_int :: "int \<Rightarrow> string" where
  "str_int i = (if i < 0 then CHR ''-'' # str_nat (nat (- i)) else str_nat (nat i))"

section \<open>Author rank\<close>

text \<open>
  \<^verbatim>\<open>
  try:
      author_pos = authors.index(author) + 1
      position_line = f"  position: '{author_pos}/{len(authors)}'"
      if author_pos == 1:
          first_author_count +=1
  except ValueError:
      position_line = f"  position: 'N/A/{len(authors)}'"
  \<close>
  \<open>author_rank\<close> is the text between the quotes of the position line.
\<close>

definition author_rank :: "string list \<Rightarrow> string \<Rightarrow> string" where
  "author_rank authors author =
     (case index authors author of
        Some i \<Rightarrow> str_int (int i + 1) @ ''/'' @ str_int (int (length authors))
      | None \<Rightarrow> ''N/A/'' @ str_int (int (length authors)))"

definition position_line :: "string list \<Rightarrow> string \<Rightarrow> string" where
  "position_line authors author =
     ''  position: '' @ [CHR 0x27] @ author_rank authors author @ [CHR 0x27]"

section \<open>Splitting the bibliography into entries\<close>

text \<open>
  \<^verbatim>\<open>
  entries_str = bib_content.strip().split('\n@')
  bib_entries = []
  if entries_str:
      first_entry = entries_str[0].strip()
      if first_entry and not first_entry.startswith('@'):
          first_entry = '@' + first_entry
      if first_entry:
           bib_entries.append(first_entry)
      for entry_part in entries_str[1:]:
          if entry_part.strip():
              bib_entries.append('@' + entry_part)
  \<close>
\<close>

fun append_parts :: "string list \<Rightarrow> string list \<Rightarrow> string list" where
  "append_parts bib_entries [] = bib_entries"
| "append_parts bib_entries (entry_part # rest) =
     append_parts
       (if strip entry_part \<noteq> [] then bib_entries @ [CHR ''@'' # entry_part] else bib_entries)
       rest"

definition first_entry :: "string \<Rightarrow> string" where
  "first_entry part =
     (let first_entry = strip part
      in if first_entry \<noteq> [] \<and> \<not> startswith ''@'' first_entry then CHR ''@'' # first_entry
         else first_entry)"

definition split_entries :: "string \<Rightarrow> string list" where
  "split_entries bib_content =
     (case split ''\<newline>@'' (strip bib_content) of
        [] \<Rightarrow> []
      | part # rest \<Rightarrow>
          append_parts (if first_entry part \<noteq> [] then [first_entry part] else []) rest)"

section \<open>The state of a run\<close>

text \<open>
  The exceptions that the modelled statements can raise. Reading the local \<open>publisher\<close>
  before any assignment raises \<open>UnboundLocalError\<close>, a subclass of \<open>NameError\<close>.
\<close>

datatype error = NameError | IndexError | FileNotFoundError

text \<open>What the run prints, one value per \<open>print\<close> call.\<close>

datatype message =
    Here
  | Pandoc_Failed string
  | Successfully_Created

text \<open>
  The locals of \<open>create_pub_listing\<close> that the loop over the entries reads and writes,
  with the two parts of the environment it changes: the scratch files that exist
  (\<open>temp_files\<close>, by path) and the printed messages. \<open>publisher\<close> is \<open>None\<close> while the
  local is unbound; the locals that are assigned afresh for every entry before they are
  read start with empty values.
\<close>

record state =
  all_articles_yaml_lines :: "string list"
  first_author_count :: int
  article_lines :: "string list"
  authors :: "string list"
  publisher :: "string option"
  container_title :: string
  issued_date :: string
  doi :: string
  url :: string
  temp_files :: "nat list"
  printed :: "message list"

text \<open>
  A statement either completes in a new state, or raises an exception in the state
  reached so far.
\<close>

type_synonym result = "(error \<times> state) + state"

section \<open>Scraping the formatter's lines\<close>

text \<open>
  The branch of the \<open>if\<close>/\<open>elif\<close> chain that a line takes, in the order of the chain.
\<close>

datatype line_kind =
    Family | Publisher | Container_Title | Issued | Doi | Url | Type | Other

definition kind_of :: "string \<Rightarrow> line_kind" where
  "kind_of line =
     (if contains ''- family:'' line then Family
      else if startswith ''publisher:'' (strip line) then Publisher
      else if startswith ''container-title:'' (strip line) then Container_Title
      else if startswith ''issued:'' (strip line) then Issued
      else if startswith ''doi:'' (strip line) then Doi
      else if startswith ''url:'' (strip line) then Url
      else if startswith ''type:'' (strip line) then Type
      else Other)"

text \<open>\<open>line.split(sep, 1)[1].strip()\<close>\<close>

definition field_value :: "string \<Rightarrow> string \<Rightarrow> error + string" where
  "field_value sep line =
     (case after_first sep line of None \<Rightarrow> Inl IndexError | Some v \<Rightarrow> Inr (strip v))"

text \<open>
  The body of \<open>for idx, line in enumerate(article_lines)\<close>. In the \<open>book\<close> branch the
  line is replaced before \<open>publisher\<close> is read.
\<close>

definition scan_line :: "nat \<Rightarrow> string \<Rightarrow> state \<Rightarrow> result" where
  "scan_line idx line st =
     (case kind_of line of
        Family \<Rightarrow>
          (case field_value ''family:'' line of
             Inl e \<Rightarrow> Inl (e, st)
           | Inr family_name \<Rightarrow> Inr (st\<lparr>authors := authors st @ [family_name]\<rparr>))
      | Publisher \<Rightarrow>
          (case field_value '':'' line of
             Inl e \<Rightarrow> Inl (e, st)
           | Inr v \<Rightarrow> Inr (st\<lparr>publisher := Some v\<rparr>))
      | Container_Title \<Rightarrow>
          (case field_value '':'' line of
             Inl e \<Rightarrow> Inl (e, st)
           | Inr v \<Rightarrow> Inr (st\<lparr>container_title := v\<rparr>))
      | Issued \<Rightarrow>
          (case field_value '':'' line of
             Inl e \<Rightarrow> Inl (e, st)
           | Inr v \<Rightarrow> Inr (st\<lparr>issued_date := v\<rparr>))
      | Doi \<Rightarrow>
          (case field_value '':'' line of
             Inl e \<Rightarrow> Inl (e, st)
           | Inr v \<Rightarrow> Inr (st\<lparr>doi := v\<rparr>))
      | Url \<Rightarrow>
          (case field_value '':'' line of
             Inl e \<Rightarrow> Inl (e, st)
           | Inr v \<Rightarrow> Inr (st\<lparr>url := v\<rparr>))
      | Type \<Rightarrow>
          (case field_value '':'' line of
             Inl e \<Rightarrow> Inl (e, st)
           | Inr bib_type \<Rightarrow>
               if bib_type = ''book'' then
                 (let st = st\<lparr>article_lines := (article_lines st)[idx := ''  type: conference'']\<rparr>
                  in case publisher st of
                       None \<Rightarrow> Inl (NameError, st)
                     | Some p \<Rightarrow> Inr (st\<lparr>container_title := p\<rparr>))
               else if bib_type = ''article-journal'' then
                 Inr (st\<lparr>article_lines := (article_lines st)[idx := ''  type: journal'']\<rparr>)
               else Inr st)
      | Other \<Rightarrow> Inr st)"

text \<open>
  The loop itself. Step \<open>idx\<close> replaces at most the line at \<open>idx\<close>, which it has
  already read, so the lines still to be read are those of the list the loop started on.
\<close>

fun scan_lines :: "nat \<Rightarrow> string list \<Rightarrow> state \<Rightarrow> result" where
  "scan_lines idx [] st = Inr st"
| "scan_lines idx (line # rest) st =
     (case scan_line idx line st of
        Inl x \<Rightarrow> Inl x
      | Inr st' \<Rightarrow> scan_lines (Suc idx) rest st')"

section \<open>One entry\<close>

text \<open>
  The lines appended after an entry's own lines:
  \<^verbatim>\<open>
  if container_title:
      all_articles_yaml_lines.append(f"  type-title: '*{container_title}*'")
  if issued_date:
      all_articles_yaml_lines.append(f"  date: {issued_date}")
  if doi:
      all_articles_yaml_lines.append(f"  path: https://doi.org/{doi}")
  if url:
      all_articles_yaml_lines.append(f"  path: {url}")
  \<close>
\<close>

definition type_title_lines :: "string \<Rightarrow> string list" where
  "type_title_lines title =
     (if title \<noteq> [] then [''  type-title: '' @ [CHR 0x27] @ ''*'' @ title @ ''*'' @ [CHR 0x27]]
      else [])"

definition date_lines :: "string \<Rightarrow> string list" where
  "date_lines issued = (if issued \<noteq> [] then [''  date: '' @ issued] else [])"

definition path_lines :: "string \<Rightarrow> string \<Rightarrow> string list" where
  "path_lines d u =
     (if d \<noteq> [] then [''  path: https://doi.org/'' @ d] else []) @
     (if u \<noteq> [] then [''  path: '' @ u] else [])"

text \<open>
  Everything one rendered entry appends to \<open>all_articles_yaml_lines\<close>, in order: its own
  lines, the derived lines, the position line.
\<close>

definition entry_lines :: "string \<Rightarrow> state \<Rightarrow> string list" where
  "entry_lines author st =
     article_lines st @ type_title_lines (container_title st) @ date_lines (issued_date st) @
     path_lines (doi st) (url st) @ [position_line (authors st) author]"

text \<open>The statements after the scan, up to the end of the \<open>try\<close> block.\<close>

definition finish_entry :: "string \<Rightarrow> state \<Rightarrow> state" where
  "finish_entry author st =
     (let st = (case index (authors st) author of
                  Some i \<Rightarrow>
                    if int i + 1 = 1 then st\<lparr>first_author_count := first_author_count st + 1\<rparr>
                    else st
                | None \<Rightarrow> st);
          st = (if ''type:'' \<in> set (article_lines st) then st\<lparr>printed := printed st @ [Here]\<rparr>
                else st)
      in st\<lparr>all_articles_yaml_lines := all_articles_yaml_lines st @ entry_lines author st\<rparr>)"

text \<open>
  The external formatter, as the program sees it: from the text of one entry either the
  standard error of a run that exited non-zero (\<open>subprocess.CalledProcessError\<close>), or
  \<open>result.stdout.splitlines()\<close>.
\<close>

type_synonym formatter = "string \<Rightarrow> string + string list"

text \<open>\<open>pandoc_output_lines[3:-2]\<close>\<close>

definition body_lines :: "string list \<Rightarrow> string list" where
  "body_lines pandoc_output_lines =
     drop 3 (take (length pandoc_output_lines - 2) pandoc_output_lines)"

text \<open>The \<open>try\<close> block with its \<open>except subprocess.CalledProcessError\<close> handler.\<close>

definition try_entry :: "formatter \<Rightarrow> string \<Rightarrow> string \<Rightarrow> state \<Rightarrow> result" where
  "try_entry pandoc author entry_str st =
     (case pandoc entry_str of
        Inl stderr \<Rightarrow> Inr (st\<lparr>printed := printed st @ [Pandoc_Failed stderr]\<rparr>)
      | Inr pandoc_output_lines \<Rightarrow>
          (let st = st\<lparr>article_lines := body_lines pandoc_output_lines, authors := [],
                       container_title := [], issued_date := [], doi := [], url := []\<rparr>
           in case scan_lines 0 (article_lines st) st of
                Inl x \<Rightarrow> Inl x
              | Inr st \<Rightarrow> Inr (finish_entry author st)))"

text \<open>
  \<open>tempfile.NamedTemporaryFile(delete=False)\<close> creates a file under a path that no
  existing file has; \<open>Path(temp_bib_path).unlink()\<close> removes the file, and raises when
  there is none.
\<close>

definition fresh_path :: "nat list \<Rightarrow> nat" where
  "fresh_path files = Suc (fold max files 0)"

definition unlink :: "nat \<Rightarrow> state \<Rightarrow> result" where
  "unlink path st =
     (if path \<in> set (temp_files st) then Inr (st\<lparr>temp_files := removeAll path (temp_files st)\<rparr>)
      else Inl (FileNotFoundError, st))"

text \<open>
  The body of \<open>for entry_str in bib_entries\<close>: the scratch file is written, then
  \<open>try\<close> ... \<open>finally\<close> unlinks it however the \<open>try\<close> block ended. An exception of the
  \<open>finally\<close> clause replaces the one that was on its way.
\<close>

definition process_entry :: "formatter \<Rightarrow> string \<Rightarrow> string \<Rightarrow> state \<Rightarrow> result" where
  "process_entry pandoc author entry_str st =
     (let temp_bib_path = fresh_path (temp_files st);
          st = st\<lparr>temp_files := temp_bib_path # temp_files st\<rparr>
      in case try_entry pandoc author entry_str st of
           Inl (e, st') \<Rightarrow>
             (case unlink temp_bib_path st' of Inl x \<Rightarrow> Inl x | Inr st'' \<Rightarrow> Inl (e, st''))
         | Inr st' \<Rightarrow> unlink temp_bib_path st')"

fun process_entries :: "formatter \<Rightarrow> string \<Rightarrow> string list \<Rightarrow> state \<Rightarrow> result" where
  "process_entries pandoc author [] st = Inr st"
| "process_entries pandoc author (entry_str # rest) st =
     (case process_entry pandoc author entry_str st of
        Inl x \<Rightarrow> Inl x
      | Inr st' \<Rightarrow> process_entries pandoc author rest st')"

section \<open>The two files\<close>

text \<open>
  \<^verbatim>\<open>
  total_articles = len(bib_entries)
  title_counts = f"{first_author_count} + {total_articles - first_author_count}"
  \<close>
\<close>

definition title_counts :: "int \<Rightarrow> int \<Rightarrow> string" where
  "title_counts first_count total_articles =
     str_int first_count @ '' + '' @ str_int (total_articles - first_count)"

definition title_line :: "string \<Rightarrow> string" where
  "title_line counts = ''title: '' @ [CHR 0x27] @ ''Publications ('' @ counts @ '')'' @ [CHR 0x27]"

definition qmd_template :: "string \<Rightarrow> string \<Rightarrow> string list" where
  "qmd_template counts yml_name =
     [''---'',
      title_line counts,
      ''title-block-banner: true'',
      ''date-format: '' @ [CHR 0x27] @ ''MMMM,<br>YYYY'' @ [CHR 0x27],
      ''listing:'',
      ''  contents:'',
      ''    - '' @ yml_name,
      ''  page-size: 10'',
      ''  sort: '' @ [CHR 0x27] @ ''date desc'' @ [CHR 0x27],
      ''  type: table'',
      ''  categories: false'',
      ''  sort-ui: [date, title, type, type-title, position]'',
      ''  filter-ui: [date, title, type, type-title]'',
      ''  fields: [date, title, type, type-title, position]'',
      ''  field-display-names:'',
      ''    date: Date'',
      ''    type: Type'',
      ''    type-title: Type Name'',
      ''    position: Rank'',
      ''---'']"

text \<open>The text of a file whose lines each end in a line feed.\<close>

definition unlines :: "string list \<Rightarrow> string" where
  "unlines ls = concat (map (\<lambda>l. l @ ''\<newline>'') ls)"

record files =
  yml :: string
  qmd :: string

text \<open>
  The state in which the loop over the entries starts: nothing collected, no first
  author counted, \<open>publisher\<close> unbound, nothing printed; \<open>fs\<close> are the scratch files that
  exist already.
\<close>

definition initial :: "nat list \<Rightarrow> state" where
  "initial fs =
     \<lparr>all_articles_yaml_lines = [], first_author_count = 0, article_lines = [], authors = [],
      publisher = None, container_title = [], issued_date = [], doi = [], url = [],
      temp_files = fs, printed = []\<rparr>"

text \<open>
  \<open>create_pub_listing\<close> from the point where the bibliography has been read: the text of
  the two files it writes and the state it ends in, or the exception that ends it before
  anything is written. \<open>yml_name\<close> is the name of the data file.
\<close>

definition create_pub_listing ::
  "formatter \<Rightarrow> nat list \<Rightarrow> string \<Rightarrow> string \<Rightarrow> string \<Rightarrow> (error \<times> state) + (files \<times> state)" where
  "create_pub_listing pandoc fs yml_name bib_content author =
     (let bib_entries = split_entries bib_content
      in case process_entries pandoc author bib_entries (initial fs) of
           Inl x \<Rightarrow> Inl x
         | Inr st \<Rightarrow>
             (let total_articles = int (length bib_entries);
                  counts = title_counts (first_author_count st) total_articles
              in Inr (\<lparr>yml = join ''\<newline>'' (all_articles_yaml_lines st) @ ''\<newline>'',
                        qmd = unlines (qmd_template counts yml_name)\<rparr>,
                      st\<lparr>printed := printed st @ [Successfully_Created]\<rparr>)))"

section \<open>Notions used to state the properties\<close>

text \<open>
  The family names that the scan collects from an entry's lines, in order: one for
  every line that takes the first branch of the chain.
\<close>

fun family_names :: "string list \<Rightarrow> string list" where
  "family_names [] = []"
| "family_names (l # ls) =
     (if kind_of l = Family then
        (case field_value ''family:'' l of Inr v \<Rightarrow> [v] | Inl _ \<Rightarrow> [])
      else []) @ family_names ls"

text \<open>
  The value that a field has after the lines \<open>ls\<close> have been scanned, when it was \<open>v\<close>
  before: every line of kind \<open>k\<close> assigns the text after its first colon, so the last
  one wins. \<open>scrape_opt\<close> is the same for a variable that may be unbound.
\<close>

fun scrape :: "line_kind \<Rightarrow> string list \<Rightarrow> string \<Rightarrow> string" where
  "scrape k [] v = v"
| "scrape k (l # ls) v =
     scrape k ls
       (if kind_of l = k then (case field_value '':'' l of Inr w \<Rightarrow> w | Inl _ \<Rightarrow> v) else v)"

fun scrape_opt :: "line_kind \<Rightarrow> string list \<Rightarrow> string option \<Rightarrow> string option" where
  "scrape_opt k [] v = v"
| "scrape_opt k (l # ls) v =
     scrape_opt k ls
       (if kind_of l = k then (case field_value '':'' l of Inr w \<Rightarrow> Some w | Inl _ \<Rightarrow> v)
        else v)"

text \<open>The line takes the \<open>type:\<close> branch, and \<open>bib_type\<close> is \<open>category\<close> there.\<close>

definition declares :: "string \<Rightarrow> string \<Rightarrow> bool" where
  "declares l category = (kind_of l = Type \<and> field_value '':'' l = Inr category)"

text \<open>The formatter exits non-zero on the entry.\<close>

definition failed :: "formatter \<Rightarrow> string \<Rightarrow> bool" where
  "failed pandoc e = isl (pandoc e)"

text \<open>
  The target author is first-listed in an entry: the formatter renders the entry, and
  the first family name among the rendered lines is the author's.
\<close>

definition first_listed :: "formatter \<Rightarrow> string \<Rightarrow> string \<Rightarrow> bool" where
  "first_listed pandoc author e =
     (case pandoc e of
        Inl _ \<Rightarrow> False
      | Inr out \<Rightarrow> (case family_names (body_lines out) of [] \<Rightarrow> False | a # _ \<Rightarrow> a = author))"

text \<open>
  Two formatters for the examples. The first renders three entries the way the
  formatter lays out its references (framing lines, then one field per line): a book
  with a publisher, a book without one, and a journal article; it fails on every other
  entry. The second is the same, but fails on the article.
\<close>

definition example_pandoc :: formatter where
  "example_pandoc entry_str =
     (if entry_str = ''@book{a}'' then
        Inr [''---'', ''nocite: all'', ''references:'', ''- author:'', ''  - family: Stephens'',
             ''    given: D.'', ''  id: a'', ''  publisher: ACM'', ''  type: book'', ''---'', '''']
      else if entry_str = ''@book{b}'' then
        Inr [''---'', ''nocite: all'', ''references:'', ''- author:'', ''  - family: Smith'',
             ''    given: J.'', ''  - family: Stephens'', ''    given: D.'', ''  id: b'',
             ''  type: book'', ''---'', '''']
      else if entry_str = ''@article{c}'' then
        Inr [''---'', ''nocite: all'', ''references:'', ''- author:'', ''  - family: Stephens'',
             ''    given: D.'', ''  container-title: Nature'', ''  id: c'',
             ''  type: article-journal'', ''---'', '''']
      else Inl ''pandoc: cannot parse the entry'')"

definition example_failing :: formatter where
  "example_failing entry_str =
     (if entry_str = ''@article{c}'' then Inl ''pandoc: cannot parse the entry''
      else example_pandoc entry_str)"

text \<open>The locals that the \<open>try\<close> block assigns before it scans the lines \<open>ls\<close>.\<close>

abbreviation (input) reset :: "string list \<Rightarrow> state \<Rightarrow> state" where
  "reset ls st \<equiv> st\<lparr>article_lines := ls, authors := [], container_title := [],
     issued_date := [], doi := [], url := []\<rparr>"

section \<open>Facts about the string functions\<close>

lemma index_None: "index xs x = None \<longleftrightarrow> x \<notin> set xs"
  by (induction xs) auto

lemma index_Some:
  "index xs x = Some i \<longleftrightarrow> i < length xs \<and> xs ! i = x \<and> (\<forall>j<i. xs ! j \<noteq> x)"
proof (induction xs arbitrary: i)
  case Nil
  then show ?case by simp
next
  case (Cons y ys)
  show ?case
  proof (cases "y = x")
    case True
    then show ?thesis by (cases i) auto
  next
    case False
    show ?thesis
    proof (cases i)
      case 0
      with False show ?thesis by auto
    next
      case (Suc k)
      have "(\<forall>j<Suc k. (y # ys) ! j \<noteq> x) \<longleftrightarrow> (\<forall>j<k. ys ! j \<noteq> x)"
        using False by (auto simp: less_Suc_eq_0_disj)
      with False Suc Cons.IH [of k] show ?thesis by auto
    qed
  qed
qed

lemma set_strip: "set (strip s) \<subseteq> set s"
proof -
  have "set (dropWhile isspace (rev (dropWhile isspace s))) \<subseteq> set (rev (dropWhile isspace s))"
    by (rule set_dropWhileD [THEN subsetI])
  also have "\<dots> \<subseteq> set s"
    using set_dropWhileD [of _ isspace s] by auto
  finally show ?thesis by (simp add: strip_def)
qed

lemma startswith_set: "startswith p s \<Longrightarrow> set p \<subseteq> set s"
  unfolding startswith_def by (metis set_take_subset)

lemma after_first_single: "c \<in> set s \<Longrightarrow> \<exists>v. after_first [c] s = Some v"
  by (induction s) (auto simp: startswith_def)

lemma startswith_append: "startswith (a @ b) s \<Longrightarrow> startswith b (drop (length a) s)"
  unfolding startswith_def
  by (metis append_eq_conv_conj drop_take length_append add_diff_cancel_left')

lemma contains_drop: "contains sub (drop n s) \<Longrightarrow> contains sub s"
proof (induction s arbitrary: n)
  case Nil
  then show ?case by simp
next
  case (Cons c cs)
  then show ?case by (cases n) auto
qed

lemma contains_suffix: "contains (a @ b) s \<Longrightarrow> contains b s"
proof (induction s)
  case Nil
  then show ?case by simp
next
  case (Cons c cs)
  show ?case
  proof (cases "startswith (a @ b) (c # cs)")
    case True
    then have "startswith b (drop (length a) (c # cs))" by (rule startswith_append)
    then have "contains b (drop (length a) (c # cs))"
      by (cases "drop (length a) (c # cs)") (auto simp: startswith_def)
    then show ?thesis by (rule contains_drop)
  next
    case False
    with Cons show ?thesis by auto
  qed
qed

lemma after_first_contains: "contains sep s \<Longrightarrow> \<exists>v. after_first sep s = Some v"
  by (induction s) (auto simp: startswith_def)

lemma join_Cons: "join sep (x # xs) = (if xs = [] then x else x @ sep @ join sep xs)"
  by (cases xs) auto

lemma split_acc_not_Nil: "split_acc sep acc s \<noteq> []"
  by (induction sep acc s rule: split_acc.induct) auto

lemma startswith_decompose:
  "startswith sep s \<Longrightarrow> s = sep @ drop (length sep) s"
  unfolding startswith_def by (metis append_take_drop_id)

lemma join_split_acc:
  "sep \<noteq> [] \<Longrightarrow> join sep (split_acc sep acc s) = rev acc @ s"
proof (induction sep acc s rule: split_acc.induct)
  case (1 sep acc)
  then show ?case by simp
next
  case (2 sep acc c cs)
  show ?case
  proof (cases "startswith sep (c # cs)")
    case True
    from \<open>sep \<noteq> []\<close> have d: "drop (length sep - 1) cs = drop (length sep) (c # cs)"
      by (cases sep) auto
    have "join sep (split_acc sep acc (c # cs))
        = rev acc @ sep @ join sep (split_acc sep [] (drop (length sep - 1) cs))"
      using True by (simp add: join_Cons split_acc_not_Nil)
    also have "\<dots> = rev acc @ sep @ drop (length sep) (c # cs)"
      using 2(1) [OF True \<open>sep \<noteq> []\<close>] d by simp
    also have "\<dots> = rev acc @ c # cs"
      using startswith_decompose [OF True] by simp
    finally show ?thesis .
  next
    case False
    with 2 show ?thesis by simp
  qed
qed

lemma join_split: "sep \<noteq> [] \<Longrightarrow> join sep (split sep s) = s"
  by (simp add: split_def join_split_acc)

lemma append_parts_eq:
  "append_parts es ps = es @ map ((#) CHR ''@'') (filter (\<lambda>p. strip p \<noteq> []) ps)"
  by (induction es ps rule: append_parts.induct) auto

lemma dropWhile_all: "\<forall>c\<in>set s. P c \<Longrightarrow> dropWhile P s = []"
  by (induction s) auto

lemma strip_blank: "\<forall>c\<in>set s. isspace c \<Longrightarrow> strip s = []"
  by (simp add: strip_def dropWhile_all)

lemma strip_pad:
  assumes "\<forall>c\<in>set ws1. isspace c" and "\<forall>c\<in>set ws2. isspace c"
  shows "strip (ws1 @ s @ ws2) = strip s"
proof -
  have a: "dropWhile isspace (ws1 @ s @ ws2) = dropWhile isspace (s @ ws2)"
    by (rule dropWhile_append2) (use assms(1) in auto)
  show ?thesis
  proof (cases "\<forall>c\<in>set s. isspace c")
    case True
    with assms(2) have "\<forall>c\<in>set (ws1 @ s @ ws2). isspace c"
      using assms(1) by auto
    then have "strip (ws1 @ s @ ws2) = []" by (rule strip_blank)
    moreover have "strip s = []" using True by (rule strip_blank)
    ultimately show ?thesis by (simp only:)
  next
    case False
    then obtain x where "x \<in> set s" "\<not> isspace x" by blast
    then have "dropWhile isspace (s @ ws2) = dropWhile isspace s @ ws2"
      by (rule dropWhile_append1)
    moreover have "dropWhile isspace (rev ws2 @ rev (dropWhile isspace s))
        = dropWhile isspace (rev (dropWhile isspace s))"
      by (rule dropWhile_append2) (use assms(2) in auto)
    ultimately show ?thesis unfolding strip_def a by simp
  qed
qed

lemma first_entry_at: "first_entry p \<noteq> [] \<Longrightarrow> startswith ''@'' (first_entry p)"
  by (auto simp: first_entry_def Let_def startswith_def split: if_splits)

section \<open>Facts about the scan\<close>

lemma field_value_colon:
  assumes "startswith k (strip l)" and "CHR '':'' \<in> set k"
  shows "\<exists>v. field_value '':'' l = Inr v"
proof -
  have "CHR '':'' \<in> set l"
    using assms startswith_set [of k "strip l"] set_strip [of l] by auto
  then obtain v where "after_first '':'' l = Some v"
    using after_first_single by blast
  then show ?thesis by (simp add: field_value_def)
qed

lemma field_value_kind:
  assumes "kind_of l \<noteq> Family" and "kind_of l \<noteq> Other"
  shows "\<exists>v. field_value '':'' l = Inr v"
proof -
  from assms obtain k where "startswith k (strip l)" and "CHR '':'' \<in> set k"
    unfolding kind_of_def by (auto split: if_splits)
  then show ?thesis by (rule field_value_colon)
qed

lemma field_value_family:
  assumes "kind_of l = Family"
  shows "\<exists>v. field_value ''family:'' l = Inr v"
proof -
  from assms have "contains ''- family:'' l"
    unfolding kind_of_def by (auto split: if_splits)
  then have "contains (''- '' @ ''family:'') l" by simp
  then have "contains ''family:'' l" by (rule contains_suffix)
  then obtain v where "after_first ''family:'' l = Some v"
    using after_first_contains by blast
  then show ?thesis by (simp add: field_value_def)
qed

lemma scan_line_Inr:
  assumes "scan_line idx l st = Inr st'"
  shows "authors st' = authors st @ family_names [l]"
    and "issued_date st' = scrape Issued [l] (issued_date st)"
    and "doi st' = scrape Doi [l] (doi st)"
    and "url st' = scrape Url [l] (url st)"
    and "all_articles_yaml_lines st' = all_articles_yaml_lines st"
    and "first_author_count st' = first_author_count st"
    and "temp_files st' = temp_files st"
    and "printed st' = printed st"
    and "length (article_lines st') = length (article_lines st)"
  using assms field_value_kind [of l] field_value_family [of l]
  by (cases "kind_of l";
      auto simp: scan_line_def Let_def split: sum.splits option.splits if_splits)+

lemma scan_line_Inl:
  assumes "scan_line idx l st = Inl (e, st')"
  shows "e = NameError" and "declares l ''book''" and "publisher st = None"
    and "all_articles_yaml_lines st' = all_articles_yaml_lines st"
    and "first_author_count st' = first_author_count st"
    and "temp_files st' = temp_files st"
    and "printed st' = printed st"
  using assms field_value_kind [of l] field_value_family [of l]
  by (cases "kind_of l";
      auto simp: scan_line_def Let_def declares_def split: sum.splits option.splits if_splits)+

lemma family_names_append: "family_names (xs @ ys) = family_names xs @ family_names ys"
  by (induction xs) auto

lemma scrape_append: "scrape k (xs @ ys) v = scrape k ys (scrape k xs v)"
  by (induction xs arbitrary: v) auto

lemma scrape_opt_append: "scrape_opt k (xs @ ys) v = scrape_opt k ys (scrape_opt k xs v)"
  by (induction xs arbitrary: v) auto

lemma scan_lines_append:
  "scan_lines idx (xs @ ys) st =
     (case scan_lines idx xs st of
        Inl x \<Rightarrow> Inl x
      | Inr st' \<Rightarrow> scan_lines (idx + length xs) ys st')"
  by (induction xs arbitrary: idx st) (auto split: sum.splits)

lemma scan_lines_Inr_all:
  assumes "scan_lines idx ls st = Inr st'"
  shows "authors st' = authors st @ family_names ls
    \<and> issued_date st' = scrape Issued ls (issued_date st)
    \<and> doi st' = scrape Doi ls (doi st)
    \<and> url st' = scrape Url ls (url st)
    \<and> all_articles_yaml_lines st' = all_articles_yaml_lines st
    \<and> first_author_count st' = first_author_count st
    \<and> temp_files st' = temp_files st
    \<and> printed st' = printed st
    \<and> length (article_lines st') = length (article_lines st)"
  using assms
proof (induction ls arbitrary: idx st)
  case Nil
  then show ?case by simp
next
  case (Cons l ls)
  then obtain s where s: "scan_line idx l st = Inr s" "scan_lines (Suc idx) ls s = Inr st'"
    by (auto split: sum.splits)
  from Cons.IH [OF s(2)] scan_line_Inr [OF s(1)] show ?case by simp
qed

lemma scan_lines_Inr:
  assumes "scan_lines idx ls st = Inr st'"
  shows "authors st' = authors st @ family_names ls"
    and "issued_date st' = scrape Issued ls (issued_date st)"
    and "doi st' = scrape Doi ls (doi st)"
    and "url st' = scrape Url ls (url st)"
    and "all_articles_yaml_lines st' = all_articles_yaml_lines st"
    and "first_author_count st' = first_author_count st"
    and "temp_files st' = temp_files st"
    and "printed st' = printed st"
    and "length (article_lines st') = length (article_lines st)"
  using scan_lines_Inr_all [OF assms] by simp_all

lemma scan_lines_Inl_all:
  assumes "scan_lines idx ls st = Inl (e, st')"
  shows "e = NameError \<and> (\<exists>l\<in>set ls. declares l ''book'')
    \<and> all_articles_yaml_lines st' = all_articles_yaml_lines st
    \<and> first_author_count st' = first_author_count st
    \<and> temp_files st' = temp_files st
    \<and> printed st' = printed st"
  using assms
proof (induction ls arbitrary: idx st)
  case Nil
  then show ?case by simp
next
  case (Cons l ls)
  show ?case
  proof (cases "scan_line idx l st")
    case (Inl x)
    with Cons.prems have "scan_line idx l st = Inl (e, st')" by simp
    from scan_line_Inl [OF this] show ?thesis by simp
  next
    case (Inr s)
    with Cons.prems have "scan_lines (Suc idx) ls s = Inl (e, st')" by simp
    from Cons.IH [OF this] scan_line_Inr [OF Inr] show ?thesis by simp
  qed
qed

lemma scan_lines_Inl:
  assumes "scan_lines idx ls st = Inl (e, st')"
  shows "e = NameError" and "\<exists>l\<in>set ls. declares l ''book''"
    and "all_articles_yaml_lines st' = all_articles_yaml_lines st"
    and "first_author_count st' = first_author_count st"
    and "temp_files st' = temp_files st"
    and "printed st' = printed st"
  using scan_lines_Inl_all [OF assms] by simp_all

lemma scan_line_plain:
  assumes "kind_of l \<noteq> Type"
  shows "\<exists>st'. scan_line idx l st = Inr st' \<and> article_lines st' = article_lines st
    \<and> publisher st' = scrape_opt Publisher [l] (publisher st)
    \<and> container_title st' = scrape Container_Title [l] (container_title st)"
  using assms field_value_kind [of l] field_value_family [of l]
  by (cases "kind_of l") (auto simp: scan_line_def)

lemma scan_lines_plain:
  assumes "\<forall>l\<in>set ls. kind_of l \<noteq> Type"
  shows "\<exists>st'. scan_lines idx ls st = Inr st' \<and> article_lines st' = article_lines st
    \<and> publisher st' = scrape_opt Publisher ls (publisher st)
    \<and> container_title st' = scrape Container_Title ls (container_title st)"
  using assms
proof (induction ls arbitrary: idx st)
  case Nil
  then show ?case by simp
next
  case (Cons l ls)
  then have "kind_of l \<noteq> Type" by simp
  from scan_line_plain [OF this, of idx st] obtain s
    where s: "scan_line idx l st = Inr s" "article_lines s = article_lines st"
      "publisher s = scrape_opt Publisher [l] (publisher st)"
      "container_title s = scrape Container_Title [l] (container_title st)"
    by blast
  from Cons have "\<forall>l\<in>set ls. kind_of l \<noteq> Type" by simp
  from Cons.IH [OF this, of "Suc idx" s] s show ?case by simp
qed

lemma scan_line_Type:
  assumes "declares l c"
  shows "scan_line idx l st =
     (if c = ''book'' then
        (case publisher st of
           None \<Rightarrow>
             Inl (NameError, st\<lparr>article_lines := (article_lines st)[idx := ''  type: conference'']\<rparr>)
         | Some p \<Rightarrow>
             Inr (st\<lparr>article_lines := (article_lines st)[idx := ''  type: conference''],
                     container_title := p\<rparr>))
      else if c = ''article-journal'' then
        Inr (st\<lparr>article_lines := (article_lines st)[idx := ''  type: journal'']\<rparr>)
      else Inr st)"
  using assms by (simp add: declares_def scan_line_def Let_def)

lemma scan_around_type:
  assumes lines: "article_lines st = pre @ tline # post"
    and pre: "\<forall>l\<in>set pre. kind_of l \<noteq> Type"
  obtains s1 where "scan_lines 0 pre st = Inr s1"
    and "article_lines s1 = pre @ tline # post"
    and "publisher s1 = scrape_opt Publisher pre (publisher st)"
    and "container_title s1 = scrape Container_Title pre (container_title st)"
    and "scan_lines 0 (pre @ tline # post) st =
           (case scan_line (length pre) tline s1 of
              Inl x \<Rightarrow> Inl x
            | Inr s2 \<Rightarrow> scan_lines (Suc (length pre)) post s2)"
proof -
  from scan_lines_plain [OF pre, of 0 st] obtain s1
    where s1: "scan_lines 0 pre st = Inr s1" "article_lines s1 = article_lines st"
      "publisher s1 = scrape_opt Publisher pre (publisher st)"
      "container_title s1 = scrape Container_Title pre (container_title st)"
    by blast
  have "scan_lines 0 (pre @ tline # post) st =
           (case scan_line (length pre) tline s1 of
              Inl x \<Rightarrow> Inl x
            | Inr s2 \<Rightarrow> scan_lines (Suc (length pre)) post s2)"
    using s1(1) by (simp add: scan_lines_append)
  with s1 lines that show thesis by simp
qed

section \<open>Facts about one entry\<close>

lemma finish_entry_fields:
  "all_articles_yaml_lines (finish_entry author st) =
     all_articles_yaml_lines st @ entry_lines author st"
  "article_lines (finish_entry author st) = article_lines st"
  "authors (finish_entry author st) = authors st"
  "publisher (finish_entry author st) = publisher st"
  "container_title (finish_entry author st) = container_title st"
  "issued_date (finish_entry author st) = issued_date st"
  "doi (finish_entry author st) = doi st"
  "url (finish_entry author st) = url st"
  "temp_files (finish_entry author st) = temp_files st"
  by (simp_all add: finish_entry_def entry_lines_def Let_def split: option.splits)

lemma finish_entry_count:
  "first_author_count (finish_entry author st) =
     first_author_count st + (if index (authors st) author = Some 0 then 1 else 0)"
  by (simp add: finish_entry_def Let_def split: option.splits)

lemma try_entry_failed:
  "pandoc e = Inl stderr \<Longrightarrow>
     try_entry pandoc author e st = Inr (st\<lparr>printed := printed st @ [Pandoc_Failed stderr]\<rparr>)"
  by (simp add: try_entry_def)

lemma try_entry_rendered:
  assumes "pandoc e = Inr out"
  shows "try_entry pandoc author e st =
     (case scan_lines 0 (body_lines out) (reset (body_lines out) st) of
        Inl x \<Rightarrow> Inl x
      | Inr s \<Rightarrow> Inr (finish_entry author s))"
  using assms by (simp add: try_entry_def Let_def)

lemma try_entry_Inr:
  assumes "pandoc e = Inr out" and "try_entry pandoc author e st = Inr st'"
  obtains s where "scan_lines 0 (body_lines out) (reset (body_lines out) st) = Inr s"
    and "st' = finish_entry author s"
  using assms by (auto simp: try_entry_rendered split: sum.splits)

lemma try_entry_Inl:
  assumes "try_entry pandoc author e st = Inl (err, s)"
  obtains out where "pandoc e = Inr out"
    and "scan_lines 0 (body_lines out) (reset (body_lines out) st) = Inl (err, s)"
  using assms by (cases "pandoc e") (auto simp: try_entry_failed try_entry_rendered split: sum.splits)

lemma scrape_none: "\<forall>l\<in>set ls. kind_of l \<noteq> k \<Longrightarrow> scrape k ls v = v"
  by (induction ls arbitrary: v) auto

lemma scan_line_title:
  assumes "scan_line idx l st = Inr st'"
    and "kind_of l \<noteq> Container_Title" and "\<not> declares l ''book''"
  shows "container_title st' = container_title st"
  using assms field_value_kind [of l] field_value_family [of l]
  by (cases "kind_of l")
    (auto simp: scan_line_def Let_def declares_def split: sum.splits option.splits if_splits)

lemma scan_lines_title:
  assumes "scan_lines idx ls st = Inr st'"
    and "\<forall>l\<in>set ls. kind_of l \<noteq> Container_Title \<and> \<not> declares l ''book''"
  shows "container_title st' = container_title st"
  using assms
proof (induction ls arbitrary: idx st)
  case Nil
  then show ?case by simp
next
  case (Cons l ls)
  then obtain s where s: "scan_line idx l st = Inr s" "scan_lines (Suc idx) ls s = Inr st'"
    by (auto split: sum.splits)
  from Cons.prems(2) have "container_title s = container_title st"
    by (intro scan_line_title [OF s(1)]) auto
  moreover from Cons.prems(2) have "container_title st' = container_title s"
    by (intro Cons.IH [OF s(2)]) auto
  ultimately show ?case by simp
qed

lemma fold_max_ge: "a \<le> fold max xs (a::nat)"
proof (induction xs arbitrary: a)
  case Nil
  then show ?case by simp
next
  case (Cons x xs)
  have "a \<le> max x a" by simp
  also have "\<dots> \<le> fold max xs (max x a)" by (rule Cons.IH)
  finally show ?case by simp
qed

lemma fold_max_member: "x \<in> set xs \<Longrightarrow> x \<le> fold max xs (a::nat)"
proof (induction xs arbitrary: a)
  case Nil
  then show ?case by simp
next
  case (Cons y ys)
  show ?case
  proof (cases "x = y")
    case True
    have "x \<le> max y a" using True by simp
    also have "\<dots> \<le> fold max ys (max y a)" by (rule fold_max_ge)
    finally show ?thesis by simp
  next
    case False
    with Cons show ?thesis by simp
  qed
qed

lemma fresh_path_new: "fresh_path fs \<notin> set fs"
  using fold_max_member [of "fresh_path fs" fs 0] by (auto simp: fresh_path_def)

lemma try_entry_temp_files:
  "try_entry pandoc author e st = Inr s \<Longrightarrow> temp_files s = temp_files st"
  "try_entry pandoc author e st = Inl (err, s) \<Longrightarrow> temp_files s = temp_files st"
proof -
  show "temp_files s = temp_files st" if r: "try_entry pandoc author e st = Inr s"
  proof (cases "pandoc e")
    case (Inl stderr)
    with r show ?thesis by (auto simp: try_entry_failed)
  next
    case (Inr out)
    from try_entry_Inr [OF Inr r] obtain s0
      where s0: "scan_lines 0 (body_lines out) (reset (body_lines out) st) = Inr s0"
        and s: "s = finish_entry author s0"
      by blast
    from scan_lines_Inr(7) [OF s0] show ?thesis by (simp add: s finish_entry_fields)
  qed
  show "temp_files s = temp_files st" if r: "try_entry pandoc author e st = Inl (err, s)"
  proof -
    from try_entry_Inl [OF r] obtain out
      where "scan_lines 0 (body_lines out) (reset (body_lines out) st) = Inl (err, s)"
      by blast
    from scan_lines_Inl(5) [OF this] show ?thesis by simp
  qed
qed

lemma unlink_fresh:
  assumes "temp_files s = fresh_path fs # fs"
  shows "unlink (fresh_path fs) s = Inr (s\<lparr>temp_files := fs\<rparr>)"
  using assms fresh_path_new [of fs] by (simp add: unlink_def)

lemma process_entry_eq:
  "process_entry pandoc author e st =
     (case try_entry pandoc author e
             (st\<lparr>temp_files := fresh_path (temp_files st) # temp_files st\<rparr>) of
        Inl (err, s) \<Rightarrow> Inl (err, s\<lparr>temp_files := temp_files st\<rparr>)
      | Inr s \<Rightarrow> Inr (s\<lparr>temp_files := temp_files st\<rparr>))"
proof -
  let ?st1 = "st\<lparr>temp_files := fresh_path (temp_files st) # temp_files st\<rparr>"
  show ?thesis
  proof (cases "try_entry pandoc author e ?st1")
    case (Inl x)
    obtain err s where x: "x = (err, s)" by (cases x)
    from try_entry_temp_files(2) [of pandoc author e ?st1 err s] Inl x
    have "temp_files s = fresh_path (temp_files st) # temp_files st" by simp
    from unlink_fresh [OF this] Inl x show ?thesis by (simp add: process_entry_def Let_def)
  next
    case (Inr s)
    from try_entry_temp_files(1) [OF Inr]
    have "temp_files s = fresh_path (temp_files st) # temp_files st" by simp
    from unlink_fresh [OF this] Inr show ?thesis by (simp add: process_entry_def Let_def)
  qed
qed

lemma index_first: "index xs x = Some 0 \<longleftrightarrow> (case xs of [] \<Rightarrow> False | a # _ \<Rightarrow> a = x)"
  by (cases xs) auto

lemma scan_line_publisher:
  assumes "scan_line idx l st = Inr st'"
  shows "publisher st' = scrape_opt Publisher [l] (publisher st)"
  using assms field_value_kind [of l] field_value_family [of l]
  by (cases "kind_of l")
    (auto simp: scan_line_def Let_def split: sum.splits option.splits if_splits)

lemma scan_lines_publisher:
  assumes "scan_lines idx ls st = Inr st'"
  shows "publisher st' = scrape_opt Publisher ls (publisher st)"
  using assms
proof (induction ls arbitrary: idx st)
  case Nil
  then show ?case by simp
next
  case (Cons l ls)
  then obtain s where s: "scan_line idx l st = Inr s" "scan_lines (Suc idx) ls s = Inr st'"
    by (auto split: sum.splits)
  from Cons.IH [OF s(2)] scan_line_publisher [OF s(1)] show ?case by simp
qed

lemma process_entry_failed:
  assumes "pandoc e = Inl stderr"
  shows "process_entry pandoc author e st = Inr (st\<lparr>printed := printed st @ [Pandoc_Failed stderr]\<rparr>)"
  using assms by (simp add: process_entry_eq try_entry_failed)

lemma process_entry_Inr:
  assumes "pandoc e = Inr out" and "process_entry pandoc author e st = Inr st'"
  obtains s where "scan_lines 0 (body_lines out)
        (reset (body_lines out) (st\<lparr>temp_files := fresh_path (temp_files st) # temp_files st\<rparr>))
      = Inr s"
    and "st' = (finish_entry author s)\<lparr>temp_files := temp_files st\<rparr>"
proof -
  let ?st1 = "st\<lparr>temp_files := fresh_path (temp_files st) # temp_files st\<rparr>"
  from assms(2) obtain s1 where s1: "try_entry pandoc author e ?st1 = Inr s1"
    and st': "st' = s1\<lparr>temp_files := temp_files st\<rparr>"
    by (cases "try_entry pandoc author e ?st1") (auto simp: process_entry_eq)
  from try_entry_Inr [OF assms(1) s1] obtain s
    where "scan_lines 0 (body_lines out) (reset (body_lines out) ?st1) = Inr s"
      and "s1 = finish_entry author s"
    by blast
  with st' that show thesis by simp
qed


lemma process_entry_rendered:
  assumes "pandoc e = Inr out" and "process_entry pandoc author e st = Inr st'"
  shows "\<exists>g. all_articles_yaml_lines st' = all_articles_yaml_lines st @ g \<and> g \<noteq> []
      \<and> last g = position_line (family_names (body_lines out)) author"
    and "first_author_count st' =
      first_author_count st + (if first_listed pandoc author e then 1 else 0)"
    and "publisher st' = scrape_opt Publisher (body_lines out) (publisher st)"
proof -
  from process_entry_Inr [OF assms] obtain s
    where s: "scan_lines 0 (body_lines out)
        (reset (body_lines out) (st\<lparr>temp_files := fresh_path (temp_files st) # temp_files st\<rparr>))
      = Inr s"
    and st': "st' = (finish_entry author s)\<lparr>temp_files := temp_files st\<rparr>"
    by blast
  note f = scan_lines_Inr [OF s]
  have "all_articles_yaml_lines st' = all_articles_yaml_lines st @ entry_lines author s"
    using f(5) by (simp add: st' finish_entry_fields)
  moreover have "entry_lines author s \<noteq> []"
    and "last (entry_lines author s) = position_line (family_names (body_lines out)) author"
    using f(1) by (simp_all add: entry_lines_def)
  ultimately show "\<exists>g. all_articles_yaml_lines st' = all_articles_yaml_lines st @ g \<and> g \<noteq> []
      \<and> last g = position_line (family_names (body_lines out)) author"
    by blast
  show "first_author_count st' =
      first_author_count st + (if first_listed pandoc author e then 1 else 0)"
    using f(1,6) assms(1)
    by (simp add: st' finish_entry_count first_listed_def index_first)
  show "publisher st' = scrape_opt Publisher (body_lines out) (publisher st)"
    using scan_lines_publisher [OF s] by (simp add: st' finish_entry_fields)
qed

section \<open>Facts about the run\<close>


lemma process_entries_count:
  assumes "process_entries pandoc author es st = Inr st'"
  shows "first_author_count st' =
     first_author_count st + int (length (filter (first_listed pandoc author) es))"
  using assms
proof (induction es arbitrary: st)
  case Nil
  then show ?case by simp
next
  case (Cons e es)
  then obtain s where s: "process_entry pandoc author e st = Inr s"
    and rest: "process_entries pandoc author es s = Inr st'"
    by (auto split: sum.splits)
  have "first_author_count s =
      first_author_count st + (if first_listed pandoc author e then 1 else 0)"
  proof (cases "pandoc e")
    case (Inl stderr)
    from process_entry_failed [of pandoc e stderr author st] Inl s
    have "first_author_count s = first_author_count st" by auto
    with Inl show ?thesis by (simp add: first_listed_def)
  next
    case (Inr out)
    from process_entry_rendered(2) [OF Inr s] show ?thesis .
  qed
  with Cons.IH [OF rest] show ?case by simp
qed



lemma create_pub_listing_Inr:
  assumes "create_pub_listing pandoc fs yml_name bib_content author = Inr (written, st')"
  obtains s where "process_entries pandoc author (split_entries bib_content) (initial fs) = Inr s"
    and "yml written = join ''\<newline>'' (all_articles_yaml_lines s) @ ''\<newline>''"
    and "qmd written =
      unlines (qmd_template
        (title_counts (first_author_count s) (int (length (split_entries bib_content))))
        yml_name)"
    and "st' = s\<lparr>printed := printed s @ [Successfully_Created]\<rparr>"
  using assms
  by (cases "process_entries pandoc author (split_entries bib_content) (initial fs)")
    (auto simp: create_pub_listing_def Let_def)


lemma scrape_opt_none: "\<forall>l\<in>set ls. kind_of l \<noteq> k \<Longrightarrow> scrape_opt k ls v = v"
  by (induction ls arbitrary: v) auto

lemma book_without_publisher:
  assumes out: "pandoc e = Inr out"
    and lines: "body_lines out = pre @ tline # post"
    and book: "declares tline ''book''"
    and pre: "\<forall>l\<in>set pre. kind_of l \<noteq> Publisher \<and> kind_of l \<noteq> Type"
  shows "publisher st = None \<Longrightarrow> \<exists>s. process_entry pandoc author e st = Inl (NameError, s)"
    and "publisher st = Some p \<Longrightarrow> \<forall>l\<in>set post. kind_of l \<noteq> Container_Title \<and> kind_of l \<noteq> Type
      \<Longrightarrow> \<exists>st' a b. process_entry pandoc author e st = Inr st' \<and> container_title st' = p
          \<and> all_articles_yaml_lines st' =
              all_articles_yaml_lines st @ a @ type_title_lines p @ b"
proof -
  let ?st1 = "st\<lparr>temp_files := fresh_path (temp_files st) # temp_files st\<rparr>"
  let ?st0 = "reset (body_lines out) ?st1"
  have al: "article_lines ?st0 = pre @ tline # post" using lines by simp
  from pre have pre_type: "\<forall>l\<in>set pre. kind_of l \<noteq> Type"
    and pre_pub: "\<forall>l\<in>set pre. kind_of l \<noteq> Publisher" by auto
  from scan_around_type [OF al pre_type] obtain s1
    where s1: "article_lines s1 = pre @ tline # post"
      "publisher s1 = scrape_opt Publisher pre (publisher ?st0)"
    and run: "scan_lines 0 (pre @ tline # post) ?st0 =
           (case scan_line (length pre) tline s1 of
              Inl x \<Rightarrow> Inl x
            | Inr s2 \<Rightarrow> scan_lines (Suc (length pre)) post s2)"
    by blast
  from s1(2) have pub: "publisher s1 = publisher st"
    by (simp add: scrape_opt_none [OF pre_pub])
  have te: "try_entry pandoc author e ?st1 =
     (case scan_lines 0 (pre @ tline # post) ?st0 of
        Inl x \<Rightarrow> Inl x
      | Inr s \<Rightarrow> Inr (finish_entry author s))"
    using try_entry_rendered [of pandoc e out author ?st1] out lines by simp
  show "\<exists>s. process_entry pandoc author e st = Inl (NameError, s)" if "publisher st = None"
  proof -
    from that pub scan_line_Type [OF book, of "length pre" s1]
    obtain s2 where "scan_line (length pre) tline s1 = Inl (NameError, s2)" by simp
    with run have "scan_lines 0 (pre @ tline # post) ?st0 = Inl (NameError, s2)" by simp
    with te have "try_entry pandoc author e ?st1 = Inl (NameError, s2)" by simp
    then show ?thesis by (simp add: process_entry_eq)
  qed
  show "\<exists>st' a b. process_entry pandoc author e st = Inr st' \<and> container_title st' = p
          \<and> all_articles_yaml_lines st' =
              all_articles_yaml_lines st @ a @ type_title_lines p @ b"
    if p: "publisher st = Some p"
      and post: "\<forall>l\<in>set post. kind_of l \<noteq> Container_Title \<and> kind_of l \<noteq> Type"
  proof -
    let ?s2 = "s1\<lparr>article_lines := (article_lines s1)[length pre := ''  type: conference''],
      container_title := p\<rparr>"
    from p pub scan_line_Type [OF book, of "length pre" s1]
    have "scan_line (length pre) tline s1 = Inr ?s2" by simp
    with run have r2: "scan_lines 0 (pre @ tline # post) ?st0 =
        scan_lines (Suc (length pre)) post ?s2" by simp
    from post have post_type: "\<forall>l\<in>set post. kind_of l \<noteq> Type"
      and post_ct: "\<forall>l\<in>set post. kind_of l \<noteq> Container_Title" by auto
    from scan_lines_plain [OF post_type, of "Suc (length pre)" ?s2] obtain s3
      where s3: "scan_lines (Suc (length pre)) post ?s2 = Inr s3"
        and ct: "container_title s3 = scrape Container_Title post (container_title ?s2)"
      by blast
    from ct have ct3: "container_title s3 = p" by (simp add: scrape_none [OF post_ct])
    from r2 s3 have sc: "scan_lines 0 (pre @ tline # post) ?st0 = Inr s3" by simp
    with te have t3: "try_entry pandoc author e ?st1 = Inr (finish_entry author s3)" by simp
    then have pe: "process_entry pandoc author e st =
        Inr ((finish_entry author s3)\<lparr>temp_files := temp_files st\<rparr>)"
      by (simp add: process_entry_eq)
    from scan_lines_Inr(5) [OF sc]
    have "all_articles_yaml_lines ((finish_entry author s3)\<lparr>temp_files := temp_files st\<rparr>) =
        all_articles_yaml_lines st @ article_lines s3 @ type_title_lines p @
        (date_lines (issued_date s3) @ path_lines (doi s3) (url s3) @
         [position_line (authors s3) author])"
      by (simp add: finish_entry_fields entry_lines_def ct3)
    moreover have "container_title ((finish_entry author s3)\<lparr>temp_files := temp_files st\<rparr>) = p"
      by (simp add: finish_entry_fields ct3)
    ultimately show ?thesis using pe by blast
  qed
qed

lemma process_entry_publisher:
  assumes "process_entry pandoc author e st = Inr st'"
  shows "publisher st' =
     (case pandoc e of
        Inl _ \<Rightarrow> publisher st
      | Inr out \<Rightarrow> scrape_opt Publisher (body_lines out) (publisher st))"
proof (cases "pandoc e")
  case (Inl stderr)
  from process_entry_failed [of pandoc e stderr author st] Inl assms
  have "publisher st' = publisher st" by auto
  with Inl show ?thesis by simp
next
  case (Inr out)
  from process_entry_rendered(3) [OF Inr assms] Inr show ?thesis by simp
qed

lemma first_listed_rendered: "first_listed pandoc author e \<Longrightarrow> \<not> failed pandoc e"
  by (cases "pandoc e") (auto simp: first_listed_def failed_def)

section \<open>The properties of the specification\<close>

text \<open>
  C1. The rank of a target name in a list of family names is the 1-based position of
  its first exact match, a slash and the length of the list when the name occurs, and
  \<open>N/A\<close>, a slash and the length when it does not; \<open>Stephens\<close> in
  \<open>Smith, Stephens, Lee\<close> has rank \<open>2/3\<close>.
\<close>

theorem author_rank_spec:
  "(target \<in> set names \<longrightarrow>
      (\<exists>i<length names. names ! i = target \<and> (\<forall>j<i. names ! j \<noteq> target) \<and>
         author_rank names target = str_int (int i + 1) @ ''/'' @ str_int (int (length names))))
   \<and> (target \<notin> set names \<longrightarrow>
      author_rank names target = ''N/A/'' @ str_int (int (length names)))
   \<and> author_rank [''Smith'', ''Stephens'', ''Lee''] ''Stephens'' = ''2/3''"
proof (intro conjI impI)
  assume "target \<in> set names"
  then obtain i where i: "index names target = Some i"
    using index_None [of names target] by (cases "index names target") auto
  then show "\<exists>i<length names. names ! i = target \<and> (\<forall>j<i. names ! j \<noteq> target) \<and>
         author_rank names target = str_int (int i + 1) @ ''/'' @ str_int (int (length names))"
    using index_Some [of names target i] by (auto simp: author_rank_def)
next
  assume "target \<notin> set names"
  then show "author_rank names target = ''N/A/'' @ str_int (int (length names))"
    using index_None [of names target] by (simp add: author_rank_def)
next
  show "author_rank [''Smith'', ''Stephens'', ''Lee''] ''Stephens'' = ''2/3''"
    by code_simp
qed

theorem author_rank_spec_witness:
  "''Lee'' \<in> set [''Smith'', ''Stephens'', ''Lee'']
   \<and> author_rank [''Smith'', ''Stephens'', ''Lee''] ''Lee'' = ''3/3''
   \<and> ''Kim'' \<notin> set [''Smith'', ''Stephens'', ''Lee'']
   \<and> author_rank [''Smith'', ''Stephens'', ''Lee''] ''Kim'' = ''N/A/3''"
proof -
  have "author_rank [''Smith'', ''Stephens'', ''Lee''] ''Lee'' = ''3/3''" by code_simp
  moreover have "str_int (int (length [''Smith'', ''Stephens'', ''Lee''])) = ''3''" by code_simp
  ultimately show ?thesis
    using author_rank_spec [of "''Kim''" "[''Smith'', ''Stephens'', ''Lee'']"]
      author_rank_spec [of "''Lee''" "[''Smith'', ''Stephens'', ''Lee'']"]
    by simp
qed

text \<open>
  C3 says that empty trailing fragments are not dropped. The text \<open>@a\<close>, line feed,
  \<open>@\<close> has the two fragments \<open>@a\<close> and the empty one, and only the first
  becomes an entry.
\<close>

theorem split_entries_counterexample:
  "split ''\<newline>@'' (strip ''@a\<newline>@'') = [''@a'', ''''] \<and> split_entries ''@a\<newline>@'' = [''@a'']"
  by code_simp

text \<open>
  C3, as the code has it. The stripped text is cut at every line feed followed by \<open>@\<close>,
  and joining the pieces with that marker gives the stripped text back. The first piece
  is stripped and gets a leading \<open>@\<close> unless it has one; every later piece gets a
  leading \<open>@\<close>. Pieces that are empty or all whitespace yield no entry, wherever they
  stand. Every entry starts with \<open>@\<close>, whitespace around the text changes nothing, and
  a text of whitespace only yields no entry.
\<close>

theorem split_entries_spec:
  "join ''\<newline>@'' (split ''\<newline>@'' (strip s)) = strip s
   \<and> (\<exists>part rest. split ''\<newline>@'' (strip s) = part # rest \<and>
        split_entries s =
          (if strip part = [] then []
           else if startswith ''@'' (strip part) then [strip part]
           else [CHR ''@'' # strip part]) @
          map ((#) CHR ''@'') (filter (\<lambda>p. strip p \<noteq> []) rest))
   \<and> (\<forall>e\<in>set (split_entries s). startswith ''@'' e)
   \<and> ((\<forall>c\<in>set ws1. isspace c) \<and> (\<forall>c\<in>set ws2. isspace c) \<longrightarrow>
        split_entries (ws1 @ s @ ws2) = split_entries s)
   \<and> ((\<forall>c\<in>set s. isspace c) \<longrightarrow> split_entries s = [])"
proof (intro conjI)
  show "join ''\<newline>@'' (split ''\<newline>@'' (strip s)) = strip s"
    by (rule join_split) simp
next
  obtain part rest where pr: "split ''\<newline>@'' (strip s) = part # rest"
    using split_acc_not_Nil [of "''\<newline>@''" "[]" "strip s"]
    by (cases "split ''\<newline>@'' (strip s)") (auto simp: split_def)
  then have "split_entries s =
          (if strip part = [] then []
           else if startswith ''@'' (strip part) then [strip part]
           else [CHR ''@'' # strip part]) @
          map ((#) CHR ''@'') (filter (\<lambda>p. strip p \<noteq> []) rest)"
    by (simp add: split_entries_def append_parts_eq first_entry_def Let_def)
  with pr show "\<exists>part rest. split ''\<newline>@'' (strip s) = part # rest \<and>
        split_entries s =
          (if strip part = [] then []
           else if startswith ''@'' (strip part) then [strip part]
           else [CHR ''@'' # strip part]) @
          map ((#) CHR ''@'') (filter (\<lambda>p. strip p \<noteq> []) rest)"
    by blast
next
  show "\<forall>e\<in>set (split_entries s). startswith ''@'' e"
  proof
    fix e
    assume "e \<in> set (split_entries s)"
    then consider p where "e = first_entry p" "first_entry p \<noteq> []"
      | p where "e = CHR ''@'' # p"
      by (auto simp: split_entries_def append_parts_eq split: list.splits if_splits)
    then show "startswith ''@'' e"
    proof cases
      case 1
      then show ?thesis by (simp add: first_entry_at)
    next
      case 2
      then show ?thesis by (simp add: startswith_def)
    qed
  qed
next
  show "(\<forall>c\<in>set ws1. isspace c) \<and> (\<forall>c\<in>set ws2. isspace c) \<longrightarrow>
        split_entries (ws1 @ s @ ws2) = split_entries s"
    by (simp add: split_entries_def strip_pad)
next
  show "(\<forall>c\<in>set s. isspace c) \<longrightarrow> split_entries s = []"
  proof
    assume "\<forall>c\<in>set s. isspace c"
    then have "strip s = []" by (rule strip_blank)
    moreover have "strip [] = []" by (simp add: strip_def)
    ultimately show "split_entries s = []"
      by (simp add: split_entries_def split_def first_entry_def)
  qed
qed

theorem split_entries_spec_witness:
  "isspace CHR '' '' \<and> isspace CHR ''\<newline>''
   \<and> split_entries (''  '' @ ''@a{x}\<newline>@b{y}'' @ ''\<newline>'') = [''@a{x}'', ''@b{y}'']
   \<and> split_entries ''@a{x}\<newline>@b{y}'' = [''@a{x}'', ''@b{y}'']
   \<and> list_all (startswith ''@'') (split_entries ''@a{x}\<newline>@b{y}'')
   \<and> split_entries '' \<newline>'' = []"
proof -
  have sp: "isspace CHR '' ''" "isspace CHR ''\<newline>''" by (simp_all add: isspace_def)
  have e: "split_entries ''@a{x}\<newline>@b{y}'' = [''@a{x}'', ''@b{y}'']" by code_simp
  show ?thesis
    using split_entries_spec [of "''@a{x}\<newline>@b{y}''" "''  ''" "''\<newline>''"]
      split_entries_spec [of "'' \<newline>''"] sp e
    by (simp add: startswith_def)
qed

text \<open>
  The category of an entry whose \<open>publisher\<close> is bound when its type line is read. The
  lines given to the scan hold one type line: if the line declares \<open>book\<close> and the scan
  of the lines before it leaves \<open>publisher\<close> bound to \<open>p\<close>, the type line becomes
  \<open>type: conference\<close> and the venue title becomes \<open>p\<close> (unless a later venue line
  replaces it); if it declares \<open>article-journal\<close>, the line becomes \<open>type: journal\<close>;
  any other category leaves the line as it is; in the last two cases the venue title is
  the one that the venue lines give. An entry with publisher \<open>ACM\<close> and type \<open>book\<close>
  yields \<open>type: conference\<close> and the venue title \<open>*ACM*\<close>.
\<close>

theorem category_normalization:
  assumes "article_lines st = pre @ tline # post"
    and "declares tline c"
    and "\<forall>l\<in>set (pre @ post). kind_of l \<noteq> Type"
  shows "(c = ''book'' \<and> scrape_opt Publisher pre (publisher st) = Some p \<longrightarrow>
        (\<exists>st'. scan_lines 0 (pre @ tline # post) st = Inr st'
           \<and> article_lines st' = pre @ ''  type: conference'' # post
           \<and> container_title st' = scrape Container_Title post p))
    \<and> (c = ''article-journal'' \<longrightarrow>
        (\<exists>st'. scan_lines 0 (pre @ tline # post) st = Inr st'
           \<and> article_lines st' = pre @ ''  type: journal'' # post
           \<and> container_title st' = scrape Container_Title (pre @ post) (container_title st)))
    \<and> (c \<noteq> ''book'' \<and> c \<noteq> ''article-journal'' \<longrightarrow>
        (\<exists>st'. scan_lines 0 (pre @ tline # post) st = Inr st'
           \<and> article_lines st' = pre @ tline # post
           \<and> container_title st' = scrape Container_Title (pre @ post) (container_title st)))
    \<and> map_sum fst all_articles_yaml_lines
         (try_entry
            (\<lambda>e. Inr [''---'', ''nocite: all'', ''references:'', ''- id: knuth'',
                      ''  publisher: ACM'', ''  type: book'', ''---'', ''''])
            ''Stephens'' ''@book{knuth, publisher = {ACM}}'' (initial []))
       = Inr [''- id: knuth'', ''  publisher: ACM'', ''  type: conference'',
              ''  type-title: '*ACM*'' @ [CHR 0x27], ''  position: 'N/A/0'' @ [CHR 0x27]]"
proof -
  from assms(3) have pre: "\<forall>l\<in>set pre. kind_of l \<noteq> Type"
    and post: "\<forall>l\<in>set post. kind_of l \<noteq> Type" by auto
  from scan_around_type [OF assms(1) pre] obtain s1
    where s1: "article_lines s1 = pre @ tline # post"
      "publisher s1 = scrape_opt Publisher pre (publisher st)"
      "container_title s1 = scrape Container_Title pre (container_title st)"
    and run: "scan_lines 0 (pre @ tline # post) st =
           (case scan_line (length pre) tline s1 of
              Inl x \<Rightarrow> Inl x
            | Inr s2 \<Rightarrow> scan_lines (Suc (length pre)) post s2)"
    by blast
  have upd: "(pre @ tline # post)[length pre := x] = pre @ x # post" for x
    by simp
  have book: "\<exists>st'. scan_lines 0 (pre @ tline # post) st = Inr st'
           \<and> article_lines st' = pre @ ''  type: conference'' # post
           \<and> container_title st' = scrape Container_Title post p"
    if "c = ''book''" and "scrape_opt Publisher pre (publisher st) = Some p"
  proof -
    let ?s2 = "s1\<lparr>article_lines := pre @ ''  type: conference'' # post, container_title := p\<rparr>"
    have "scan_line (length pre) tline s1 = Inr ?s2"
      using scan_line_Type [OF assms(2), of "length pre" s1] that s1 upd by simp
    with run have "scan_lines 0 (pre @ tline # post) st = scan_lines (Suc (length pre)) post ?s2"
      by simp
    with scan_lines_plain [OF post, of "Suc (length pre)" ?s2] show ?thesis by auto
  qed
  have journal: "\<exists>st'. scan_lines 0 (pre @ tline # post) st = Inr st'
           \<and> article_lines st' = pre @ ''  type: journal'' # post
           \<and> container_title st' = scrape Container_Title (pre @ post) (container_title st)"
    if "c = ''article-journal''"
  proof -
    let ?s2 = "s1\<lparr>article_lines := pre @ ''  type: journal'' # post\<rparr>"
    have "scan_line (length pre) tline s1 = Inr ?s2"
      using scan_line_Type [OF assms(2), of "length pre" s1] that s1 upd by simp
    with run have "scan_lines 0 (pre @ tline # post) st = scan_lines (Suc (length pre)) post ?s2"
      by simp
    with scan_lines_plain [OF post, of "Suc (length pre)" ?s2] s1 show ?thesis
      by (auto simp: scrape_append)
  qed
  have other: "\<exists>st'. scan_lines 0 (pre @ tline # post) st = Inr st'
           \<and> article_lines st' = pre @ tline # post
           \<and> container_title st' = scrape Container_Title (pre @ post) (container_title st)"
    if "c \<noteq> ''book''" and "c \<noteq> ''article-journal''"
  proof -
    have "scan_line (length pre) tline s1 = Inr s1"
      using scan_line_Type [OF assms(2), of "length pre" s1] that by simp
    with run have "scan_lines 0 (pre @ tline # post) st = scan_lines (Suc (length pre)) post s1"
      by simp
    with scan_lines_plain [OF post, of "Suc (length pre)" s1] s1 show ?thesis
      by (auto simp: scrape_append)
  qed
  have acm: "map_sum fst all_articles_yaml_lines
         (try_entry
            (\<lambda>e. Inr [''---'', ''nocite: all'', ''references:'', ''- id: knuth'',
                      ''  publisher: ACM'', ''  type: book'', ''---'', ''''])
            ''Stephens'' ''@book{knuth, publisher = {ACM}}'' (initial []))
       = Inr [''- id: knuth'', ''  publisher: ACM'', ''  type: conference'',
              ''  type-title: '*ACM*'' @ [CHR 0x27], ''  position: 'N/A/0'' @ [CHR 0x27]]"
    by code_simp
  from book journal other acm show ?thesis by blast
qed

theorem category_normalization_witness:
  "declares ''  type: book'' ''book''
   \<and> kind_of ''  publisher: ACM'' \<noteq> Type
   \<and> scrape_opt Publisher [''  publisher: ACM''] None = Some ''ACM''
   \<and> (\<exists>st'. scan_lines 0 [''  publisher: ACM'', ''  type: book'']
               ((initial [])\<lparr>article_lines := [''  publisher: ACM'', ''  type: book'']\<rparr>) = Inr st'
          \<and> article_lines st' = [''  publisher: ACM'', ''  type: conference'']
          \<and> container_title st' = ''ACM'')"
proof -
  have d: "declares ''  type: book'' ''book''" by code_simp
  have k: "kind_of ''  publisher: ACM'' \<noteq> Type" by code_simp
  have p: "scrape_opt Publisher [''  publisher: ACM''] None = Some ''ACM''" by code_simp
  have i: "publisher ((initial [])\<lparr>article_lines := [''  publisher: ACM'', ''  type: book'']\<rparr>) = None"
    by (simp add: initial_def)
  have a: "article_lines ((initial [])\<lparr>article_lines := [''  publisher: ACM'', ''  type: book'']\<rparr>)
      = [''  publisher: ACM''] @ ''  type: book'' # []"
    by simp
  have n: "\<forall>l\<in>set ([''  publisher: ACM''] @ []). kind_of l \<noteq> Type" using k by simp
  from category_normalization [OF a d n, of "''ACM''"] p i
  have "\<exists>st'. scan_lines 0 ([''  publisher: ACM''] @ ''  type: book'' # [])
               ((initial [])\<lparr>article_lines := [''  publisher: ACM'', ''  type: book'']\<rparr>) = Inr st'
          \<and> article_lines st' = [''  publisher: ACM''] @ ''  type: conference'' # []
          \<and> container_title st' = scrape Container_Title [] ''ACM''"
    by (simp only: simp_thms)
  then have "\<exists>st'. scan_lines 0 [''  publisher: ACM'', ''  type: book'']
               ((initial [])\<lparr>article_lines := [''  publisher: ACM'', ''  type: book'']\<rparr>) = Inr st'
          \<and> article_lines st' = [''  publisher: ACM'', ''  type: conference'']
          \<and> container_title st' = ''ACM''"
    by (simp only: append.simps scrape.simps)
  with d k p show ?thesis by blast
qed

text \<open>
  C2 says that every entry declared \<open>book\<close> is listed as \<open>conference\<close> with its
  publisher as venue title. The formatter's lines for this book hold no publisher line.
  Its four sibling fields are set to the empty text at the start of every entry;
  \<open>publisher\<close> is not. As the first entry of a run the book raises \<open>NameError\<close>, and
  nothing is listed; after an entry published by \<open>ACM\<close> its venue title is \<open>*ACM*\<close>,
  the other entry's publisher.
\<close>

theorem book_without_publisher_remap:
  "example_pandoc ''@book{b}'' =
     Inr [''---'', ''nocite: all'', ''references:'', ''- author:'', ''  - family: Smith'',
          ''    given: J.'', ''  - family: Stephens'', ''    given: D.'', ''  id: b'',
          ''  type: book'', ''---'', '''']
   \<and> declares ''  type: book'' ''book''
   \<and> map_sum fst all_articles_yaml_lines
        (try_entry example_pandoc ''Stephens'' ''@book{b}'' (initial []))
      = Inl NameError
   \<and> map_sum fst all_articles_yaml_lines
        (try_entry example_pandoc ''Stephens'' ''@book{b}''
           ((initial [])\<lparr>publisher := Some ''ACM''\<rparr>))
      = Inr [''- author:'', ''  - family: Smith'', ''    given: J.'', ''  - family: Stephens'',
             ''    given: D.'', ''  id: b'', ''  type: conference'',
             ''  type-title: '*ACM*'' @ [CHR 0x27], ''  position: '2/2'' @ [CHR 0x27]]"
  by code_simp



text \<open>
  C7 says that the venue line is omitted whenever the venue title is absent from the
  formatter's output. The lines of this book entry hold no venue title, and the entry's
  record holds a venue line all the same, made from the publisher.
\<close>

theorem missing_field_counterexample:
  "kind_of ''- id: knuth'' \<noteq> Container_Title
   \<and> kind_of ''  publisher: ACM'' \<noteq> Container_Title
   \<and> kind_of ''  type: book'' \<noteq> Container_Title
   \<and> body_lines [''---'', ''nocite: all'', ''references:'', ''- id: knuth'',
        ''  publisher: ACM'', ''  type: book'', ''---'', '''']
      = [''- id: knuth'', ''  publisher: ACM'', ''  type: book'']
   \<and> map_sum fst all_articles_yaml_lines
         (try_entry
            (\<lambda>e. Inr [''---'', ''nocite: all'', ''references:'', ''- id: knuth'',
                      ''  publisher: ACM'', ''  type: book'', ''---'', ''''])
            ''Stephens'' ''@book{knuth, publisher = {ACM}}'' (initial []))
       = Inr [''- id: knuth'', ''  publisher: ACM'', ''  type: conference'',
              ''  type-title: '*ACM*'' @ [CHR 0x27], ''  position: 'N/A/0'' @ [CHR 0x27]]"
  by code_simp

text \<open>
  C7, as the code has it. When no line of a rendered entry gives the issue date, the
  identifier or the link, the record has no line for it; it has no venue line when no
  line gives the venue title and none declares \<open>book\<close>. The only exception that a
  rendered entry raises is the \<open>NameError\<close> of a line that declares \<open>book\<close>, so an
  absent field never ends the run.
\<close>

theorem missing_fields:
  assumes "pandoc e = Inr out"
  shows "(try_entry pandoc author e st = Inr st' \<longrightarrow>
        all_articles_yaml_lines st' =
          all_articles_yaml_lines st @ article_lines st' @
          type_title_lines (container_title st') @ date_lines (issued_date st') @
          path_lines (doi st') (url st') @ [position_line (authors st') author]
      \<and> ((\<forall>l\<in>set (body_lines out). kind_of l \<noteq> Container_Title \<and> \<not> declares l ''book'') \<longrightarrow>
           type_title_lines (container_title st') = [])
      \<and> ((\<forall>l\<in>set (body_lines out). kind_of l \<noteq> Issued) \<longrightarrow>
           date_lines (issued_date st') = [])
      \<and> ((\<forall>l\<in>set (body_lines out). kind_of l \<noteq> Doi) \<longrightarrow>
           path_lines (doi st') (url st') =
             (if url st' = [] then [] else [''  path: '' @ url st']))
      \<and> ((\<forall>l\<in>set (body_lines out). kind_of l \<noteq> Url) \<longrightarrow>
           path_lines (doi st') (url st') =
             (if doi st' = [] then [] else [''  path: https://doi.org/'' @ doi st'])))
    \<and> (try_entry pandoc author e st = Inl (err, s) \<longrightarrow>
        err = NameError \<and> (\<exists>l\<in>set (body_lines out). declares l ''book''))"
proof (intro conjI impI)
  assume r: "try_entry pandoc author e st = Inr st'"
  from try_entry_Inr [OF assms r] obtain s0
    where s0: "scan_lines 0 (body_lines out) (reset (body_lines out) st) = Inr s0"
      and st': "st' = finish_entry author s0"
    by blast
  note f = scan_lines_Inr [OF s0]
  show "all_articles_yaml_lines st' =
          all_articles_yaml_lines st @ article_lines st' @
          type_title_lines (container_title st') @ date_lines (issued_date st') @
          path_lines (doi st') (url st') @ [position_line (authors st') author]"
    using f(5) by (simp add: st' finish_entry_fields entry_lines_def)
  show "type_title_lines (container_title st') = []"
    if "\<forall>l\<in>set (body_lines out). kind_of l \<noteq> Container_Title \<and> \<not> declares l ''book''"
    using scan_lines_title [OF s0 that]
    by (simp add: st' finish_entry_fields type_title_lines_def)
  show "date_lines (issued_date st') = []"
    if "\<forall>l\<in>set (body_lines out). kind_of l \<noteq> Issued"
    using f(2) scrape_none [OF that]
    by (simp add: st' finish_entry_fields date_lines_def)
  show "path_lines (doi st') (url st') = (if url st' = [] then [] else [''  path: '' @ url st'])"
    if "\<forall>l\<in>set (body_lines out). kind_of l \<noteq> Doi"
    using f(3) scrape_none [OF that]
    by (simp add: st' finish_entry_fields path_lines_def)
  show "path_lines (doi st') (url st') =
      (if doi st' = [] then [] else [''  path: https://doi.org/'' @ doi st'])"
    if "\<forall>l\<in>set (body_lines out). kind_of l \<noteq> Url"
    using f(4) scrape_none [OF that]
    by (simp add: st' finish_entry_fields path_lines_def)
next
  assume r: "try_entry pandoc author e st = Inl (err, s)"
  from try_entry_Inl [OF r] assms
  have "scan_lines 0 (body_lines out) (reset (body_lines out) st) = Inl (err, s)"
    by auto
  from scan_lines_Inl(1,2) [OF this]
  show "err = NameError" and "\<exists>l\<in>set (body_lines out). declares l ''book''" .
qed

theorem missing_fields_witness:
  "map_sum fst all_articles_yaml_lines
     (try_entry
        (\<lambda>e. Inr [''---'', ''nocite: all'', ''references:'', ''- id: x'',
                  ''  type: article-journal'', ''---'', ''''])
        ''Stephens'' ''@article{x}'' (initial []))
   = Inr [''- id: x'', ''  type: journal'', ''  position: 'N/A/0'' @ [CHR 0x27]]
   \<and> list_all (\<lambda>l. kind_of l \<noteq> Container_Title \<and> \<not> declares l ''book''
         \<and> kind_of l \<noteq> Issued \<and> kind_of l \<noteq> Doi \<and> kind_of l \<noteq> Url)
       (body_lines [''---'', ''nocite: all'', ''references:'', ''- id: x'',
               ''  type: article-journal'', ''---'', ''''])
   \<and> (\<exists>st'. try_entry
        (\<lambda>e. Inr [''---'', ''nocite: all'', ''references:'', ''- id: x'',
                  ''  type: article-journal'', ''---'', ''''])
        ''Stephens'' ''@article{x}'' (initial []) = Inr st'
      \<and> type_title_lines (container_title st') = [] \<and> date_lines (issued_date st') = []
      \<and> path_lines (doi st') (url st') = [])"
proof -
  let ?out = "[''---'', ''nocite: all'', ''references:'', ''- id: x'',
               ''  type: article-journal'', ''---'', '''']"
  let ?pd = "\<lambda>e::string. Inr ?out :: string + string list"
  have m: "map_sum fst all_articles_yaml_lines
     (try_entry ?pd ''Stephens'' ''@article{x}'' (initial []))
   = Inr [''- id: x'', ''  type: journal'', ''  position: 'N/A/0'' @ [CHR 0x27]]"
    by code_simp
  then obtain st' where t: "try_entry ?pd ''Stephens'' ''@article{x}'' (initial []) = Inr st'"
    by (cases "try_entry ?pd ''Stephens'' ''@article{x}'' (initial [])") auto
  have o: "?pd ''@article{x}'' = Inr ?out" by simp
  have l: "list_all (\<lambda>l. kind_of l \<noteq> Container_Title \<and> \<not> declares l ''book''
         \<and> kind_of l \<noteq> Issued \<and> kind_of l \<noteq> Doi \<and> kind_of l \<noteq> Url) (body_lines ?out)"
    by code_simp
  then have all: "\<forall>l\<in>set (body_lines ?out). kind_of l \<noteq> Container_Title \<and> \<not> declares l ''book''"
    "\<forall>l\<in>set (body_lines ?out). kind_of l \<noteq> Issued"
    "\<forall>l\<in>set (body_lines ?out). kind_of l \<noteq> Doi"
    "\<forall>l\<in>set (body_lines ?out). kind_of l \<noteq> Url"
    unfolding list_all_iff by blast+
  note f = missing_fields [of ?pd "''@article{x}''" ?out "''Stephens''" "initial []" st', OF o]
  from f t all(1) have a: "type_title_lines (container_title st') = []" by blast
  from f t all(2) have b: "date_lines (issued_date st') = []" by blast
  from f t all(3) have c: "path_lines (doi st') (url st') =
      (if url st' = [] then [] else [''  path: '' @ url st'])" by blast
  from f t all(4) have d: "path_lines (doi st') (url st') =
      (if doi st' = [] then [] else [''  path: https://doi.org/'' @ doi st'])" by blast
  have "path_lines (doi st') (url st') = []"
    using c d by (auto simp: path_lines_def split: if_splits)
  with a b t have "\<exists>st'. try_entry ?pd ''Stephens'' ''@article{x}'' (initial []) = Inr st'
      \<and> type_title_lines (container_title st') = [] \<and> date_lines (issued_date st') = []
      \<and> path_lines (doi st') (url st') = []"
    by blast
  with m l show ?thesis by blast
qed

text \<open>
  C8. The scratch file of an entry has a path that no existing file has; it exists
  when the \<open>try\<close> block ends, however that block ends; and after the entry the scratch
  files are the ones that existed before it, whether the entry was rendered, was skipped
  because the formatter failed, or raised an exception.
\<close>

theorem scratch_file_released:
  "fresh_path (temp_files st) \<notin> set (temp_files st)
   \<and> (case try_entry pandoc author e
             (st\<lparr>temp_files := fresh_path (temp_files st) # temp_files st\<rparr>) of
        Inr s \<Rightarrow>
          fresh_path (temp_files st) \<in> set (temp_files s)
          \<and> process_entry pandoc author e st = Inr (s\<lparr>temp_files := temp_files st\<rparr>)
      | Inl (err, s) \<Rightarrow>
          fresh_path (temp_files st) \<in> set (temp_files s)
          \<and> process_entry pandoc author e st = Inl (err, s\<lparr>temp_files := temp_files st\<rparr>))
   \<and> (process_entry pandoc author e st = Inr st' \<longrightarrow> temp_files st' = temp_files st)
   \<and> (process_entry pandoc author e st = Inl (err', st') \<longrightarrow> temp_files st' = temp_files st)"
proof -
  let ?p = "fresh_path (temp_files st)"
  let ?st1 = "st\<lparr>temp_files := ?p # temp_files st\<rparr>"
  have new: "?p \<notin> set (temp_files st)" by (rule fresh_path_new)
  show ?thesis
  proof (cases "try_entry pandoc author e ?st1")
    case (Inl x)
    obtain err s where x: "x = (err, s)" by (cases x)
    with Inl have t: "try_entry pandoc author e ?st1 = Inl (err, s)" by simp
    from try_entry_temp_files(2) [OF t] have live: "?p \<in> set (temp_files s)" by simp
    have p: "process_entry pandoc author e st = Inl (err, s\<lparr>temp_files := temp_files st\<rparr>)"
      by (simp add: process_entry_eq t)
    from new live p t show ?thesis by auto
  next
    case (Inr s)
    from try_entry_temp_files(1) [OF Inr] have live: "?p \<in> set (temp_files s)" by simp
    have p: "process_entry pandoc author e st = Inr (s\<lparr>temp_files := temp_files st\<rparr>)"
      by (simp add: process_entry_eq Inr)
    from new live p Inr show ?thesis by auto
  qed
qed

theorem scratch_file_released_witness:
  "fresh_path (temp_files (initial [3])) = 4
   \<and> process_entry (\<lambda>e. Inl ''boom'') ''Stephens'' ''@article{x}'' (initial [3])
       = Inr ((initial [3])\<lparr>printed := [Pandoc_Failed ''boom'']\<rparr>)
   \<and> temp_files ((initial [3])\<lparr>printed := [Pandoc_Failed ''boom'']\<rparr>) = temp_files (initial [3])"
proof -
  have f: "fresh_path (temp_files (initial [3])) = 4"
    by (simp add: fresh_path_def initial_def)
  have p: "process_entry (\<lambda>e. Inl ''boom'') ''Stephens'' ''@article{x}'' (initial [3])
       = Inr ((initial [3])\<lparr>printed := [Pandoc_Failed ''boom'']\<rparr>)"
    by (simp add: process_entry_eq try_entry_failed initial_def)
  from scratch_file_released
    [of "initial [3]" "\<lambda>e. Inl ''boom''" "''Stephens''" "''@article{x}''"
      "(initial [3])\<lparr>printed := [Pandoc_Failed ''boom'']\<rparr>"] p
  have "temp_files ((initial [3])\<lparr>printed := [Pandoc_Failed ''boom'']\<rparr>) = temp_files (initial [3])"
    by blast
  with f p show ?thesis by blast
qed



text \<open>
  C6 says that the title shows \<open>k + (N - k)\<close> when the target author is first-listed
  in \<open>k\<close> of the \<open>N\<close> entries. Both entries of this bibliography have the target author
  first, as the formatter that renders both shows. With a formatter that fails on the
  second entry and agrees on the first, the title shows \<open>1 + 1\<close> and not \<open>2 + 0\<close>.
\<close>

theorem first_author_statistic_counterexample:
  "split_entries ''@book{a}\<newline>@article{c}'' = [''@book{a}'', ''@article{c}'']
   \<and> first_listed example_pandoc ''Stephens'' ''@book{a}''
   \<and> first_listed example_pandoc ''Stephens'' ''@article{c}''
   \<and> example_failing ''@book{a}'' = example_pandoc ''@book{a}''
   \<and> failed example_failing ''@article{c}''
   \<and> map_sum fst (qmd \<circ> fst)
        (create_pub_listing example_failing [] ''publications.yml''
           ''@book{a}\<newline>@article{c}'' ''Stephens'')
       = Inr (unlines (qmd_template ''1 + 1'' ''publications.yml''))
   \<and> unlines (qmd_template ''1 + 1'' ''publications.yml'')
       \<noteq> unlines (qmd_template ''2 + 0'' ''publications.yml'')"
  by code_simp

text \<open>
  C6, as the code has it. When the run completes over \<open>N\<close> entries, and \<open>k\<close> of them
  are rendered by the formatter with the target author first among the rendered family
  names, the definition document is the template filled with \<open>k + (N - k)\<close>, and the
  template's second line is the title with that text between the brackets. An entry on
  which the formatter fails counts in \<open>N - k\<close>, whoever its first author is.
\<close>

theorem first_author_statistic:
  "create_pub_listing pandoc fs yml_name bib_content author = Inr (written, st') \<longrightarrow>
     length (filter (\<lambda>e. \<not> failed pandoc e \<and> first_listed pandoc author e)
       (split_entries bib_content)) \<le> length (split_entries bib_content)
     \<and> qmd written =
         unlines (qmd_template
           (str_int (int (length (filter (\<lambda>e. \<not> failed pandoc e \<and> first_listed pandoc author e)
              (split_entries bib_content))))
            @ '' + '' @
            str_int (int (length (split_entries bib_content) -
              length (filter (\<lambda>e. \<not> failed pandoc e \<and> first_listed pandoc author e)
                (split_entries bib_content)))))
           yml_name)
     \<and> (\<exists>rest. qmd_template c yml_name =
           ''---'' # (''title: '' @ [CHR 0x27] @ ''Publications ('' @ c @ '')'' @ [CHR 0x27]) # rest)"
proof
  assume "create_pub_listing pandoc fs yml_name bib_content author = Inr (written, st')"
  then obtain s0
    where run: "process_entries pandoc author (split_entries bib_content) (initial fs) = Inr s0"
      and q: "qmd written =
      unlines (qmd_template
        (title_counts (first_author_count s0) (int (length (split_entries bib_content))))
        yml_name)"
    by (rule create_pub_listing_Inr)
  let ?N = "length (split_entries bib_content)"
  let ?k = "length (filter (\<lambda>e. \<not> failed pandoc e \<and> first_listed pandoc author e)
      (split_entries bib_content))"
  have le: "?k \<le> ?N" by (rule length_filter_le)
  have "filter (\<lambda>e. \<not> failed pandoc e \<and> first_listed pandoc author e) (split_entries bib_content)
      = filter (first_listed pandoc author) (split_entries bib_content)"
    by (rule filter_cong) (auto dest: first_listed_rendered)
  with process_entries_count [OF run] have c: "first_author_count s0 = int ?k"
    by (simp add: initial_def)
  have "title_counts (int ?k) (int ?N) = str_int (int ?k) @ '' + '' @ str_int (int (?N - ?k))"
    using le by (simp add: title_counts_def of_nat_diff)
  with q c have "qmd written =
      unlines (qmd_template (str_int (int ?k) @ '' + '' @ str_int (int (?N - ?k))) yml_name)"
    by simp
  moreover have "\<exists>rest. qmd_template c yml_name =
      ''---'' # (''title: '' @ [CHR 0x27] @ ''Publications ('' @ c @ '')'' @ [CHR 0x27]) # rest"
    by (simp add: qmd_template_def title_line_def)
  ultimately show "?k \<le> ?N
     \<and> qmd written =
         unlines (qmd_template (str_int (int ?k) @ '' + '' @ str_int (int (?N - ?k))) yml_name)
     \<and> (\<exists>rest. qmd_template c yml_name =
           ''---'' # (''title: '' @ [CHR 0x27] @ ''Publications ('' @ c @ '')'' @ [CHR 0x27]) # rest)"
    using le by blast
qed

theorem first_author_statistic_witness:
  "split_entries ''@book{a}\<newline>@book{b}\<newline>@article{c}'' = [''@book{a}'', ''@book{b}'', ''@article{c}'']
   \<and> filter (\<lambda>e. \<not> failed example_failing e \<and> first_listed example_failing ''Stephens'' e)
        [''@book{a}'', ''@book{b}'', ''@article{c}''] = [''@book{a}'']
   \<and> failed example_failing ''@article{c}''
   \<and> map_sum fst (qmd \<circ> fst)
        (create_pub_listing example_failing [] ''publications.yml''
           ''@book{a}\<newline>@book{b}\<newline>@article{c}'' ''Stephens'')
       = Inr (unlines (qmd_template ''1 + 2'' ''publications.yml''))"
proof -
  let ?bib = "''@book{a}\<newline>@book{b}\<newline>@article{c}''"
  let ?run = "create_pub_listing example_failing [] ''publications.yml'' ?bib ''Stephens''"
  have sp: "split_entries ?bib = [''@book{a}'', ''@book{b}'', ''@article{c}'']" by code_simp
  have fl: "filter (\<lambda>e. \<not> failed example_failing e \<and> first_listed example_failing ''Stephens'' e)
      [''@book{a}'', ''@book{b}'', ''@article{c}''] = [''@book{a}'']"
    by code_simp
  have fc: "failed example_failing ''@article{c}''"
    by (simp add: failed_def example_failing_def)
  have i: "case_sum (\<lambda>_. False) (\<lambda>_. True) ?run" by code_simp
  then obtain written st' where r: "?run = Inr (written, st')"
    by (cases ?run) auto
  have n: "str_int (int 1) = ''1''" "str_int (int (3 - 1)) = ''2''" by code_simp+
  from first_author_statistic
    [of example_failing "[]" "''publications.yml''" ?bib "''Stephens''" written st'] r
  have "qmd written =
         unlines (qmd_template
           (str_int (int (length (filter (\<lambda>e. \<not> failed example_failing e
                \<and> first_listed example_failing ''Stephens'' e) (split_entries ?bib))))
            @ '' + '' @
            str_int (int (length (split_entries ?bib) -
              length (filter (\<lambda>e. \<not> failed example_failing e
                \<and> first_listed example_failing ''Stephens'' e) (split_entries ?bib)))))
           ''publications.yml'')"
    by blast
  then have "qmd written = unlines (qmd_template ''1 + 2'' ''publications.yml'')"
    unfolding sp fl using n by simp
  with r have "map_sum fst (qmd \<circ> fst) ?run
       = Inr (unlines (qmd_template ''1 + 2'' ''publications.yml''))"
    by simp
  with sp fl fc show ?thesis by blast
qed

text \<open>
  C9. After an entry, \<open>publisher\<close> is what it was before the entry unless a publisher
  line of the entry assigned it: nothing resets it. So a rendered entry that declares
  \<open>book\<close> with no publisher line before its type line raises \<open>NameError\<close> when no
  earlier entry has bound \<open>publisher\<close>, and otherwise takes the earlier entry's
  publisher as its venue title. A bibliography of one such book aborts the run; after
  a book published by \<open>ACM\<close>, the same book is listed with the venue title \<open>*ACM*\<close>.
\<close>

theorem publisher_not_reset:
  "(process_entry pandoc author e st = Inr st' \<longrightarrow>
      publisher st' =
        (case pandoc e of
           Inl _ \<Rightarrow> publisher st
         | Inr out \<Rightarrow> scrape_opt Publisher (body_lines out) (publisher st)))
   \<and> (pandoc e = Inr out \<and> body_lines out = pre @ tline # post \<and> declares tline ''book''
        \<and> (\<forall>l\<in>set pre. kind_of l \<noteq> Publisher \<and> kind_of l \<noteq> Type) \<longrightarrow>
        (publisher st = None \<longrightarrow>
           (\<exists>s. process_entry pandoc author e st = Inl (NameError, s)))
        \<and> (publisher st = Some p
             \<and> (\<forall>l\<in>set post. kind_of l \<noteq> Container_Title \<and> kind_of l \<noteq> Type) \<longrightarrow>
           (\<exists>s a b. process_entry pandoc author e st = Inr s \<and> container_title s = p
              \<and> all_articles_yaml_lines s =
                  all_articles_yaml_lines st @ a @ type_title_lines p @ b)))
   \<and> map_sum fst fst
        (create_pub_listing example_pandoc [] ''publications.yml'' ''@book{b}'' ''Stephens'')
      = Inl NameError
   \<and> map_sum fst (all_articles_yaml_lines \<circ> snd)
        (create_pub_listing example_pandoc [] ''publications.yml''
           ''@book{a}\<newline>@book{b}'' ''Stephens'')
      = Inr [''- author:'', ''  - family: Stephens'', ''    given: D.'', ''  id: a'',
             ''  publisher: ACM'', ''  type: conference'',
             ''  type-title: '*ACM*'' @ [CHR 0x27], ''  position: '1/1'' @ [CHR 0x27],
             ''- author:'', ''  - family: Smith'', ''    given: J.'', ''  - family: Stephens'',
             ''    given: D.'', ''  id: b'', ''  type: conference'',
             ''  type-title: '*ACM*'' @ [CHR 0x27], ''  position: '2/2'' @ [CHR 0x27]]"
proof (intro conjI impI)
  assume "process_entry pandoc author e st = Inr st'"
  then show "publisher st' =
        (case pandoc e of
           Inl _ \<Rightarrow> publisher st
         | Inr out \<Rightarrow> scrape_opt Publisher (body_lines out) (publisher st))"
    by (rule process_entry_publisher)
next
  assume a: "pandoc e = Inr out \<and> body_lines out = pre @ tline # post \<and> declares tline ''book''
        \<and> (\<forall>l\<in>set pre. kind_of l \<noteq> Publisher \<and> kind_of l \<noteq> Type)"
    and n: "publisher st = None"
  from a have h: "pandoc e = Inr out" "body_lines out = pre @ tline # post"
    "declares tline ''book''" "\<forall>l\<in>set pre. kind_of l \<noteq> Publisher \<and> kind_of l \<noteq> Type"
    by blast+
  show "\<exists>s. process_entry pandoc author e st = Inl (NameError, s)"
    by (rule book_without_publisher(1) [where pandoc = pandoc and e = e and out = out])
      (use h n in simp_all)
next
  assume a: "pandoc e = Inr out \<and> body_lines out = pre @ tline # post \<and> declares tline ''book''
        \<and> (\<forall>l\<in>set pre. kind_of l \<noteq> Publisher \<and> kind_of l \<noteq> Type)"
    and b: "publisher st = Some p
             \<and> (\<forall>l\<in>set post. kind_of l \<noteq> Container_Title \<and> kind_of l \<noteq> Type)"
  from a have h: "pandoc e = Inr out" "body_lines out = pre @ tline # post"
    "declares tline ''book''" "\<forall>l\<in>set pre. kind_of l \<noteq> Publisher \<and> kind_of l \<noteq> Type"
    by blast+
  from b have k: "publisher st = Some p"
    "\<forall>l\<in>set post. kind_of l \<noteq> Container_Title \<and> kind_of l \<noteq> Type"
    by blast+
  show "\<exists>s a b. process_entry pandoc author e st = Inr s \<and> container_title s = p
              \<and> all_articles_yaml_lines s =
                  all_articles_yaml_lines st @ a @ type_title_lines p @ b"
    by (rule book_without_publisher(2) [where pandoc = pandoc and e = e and out = out
          and pre = pre and tline = tline and post = post])
      (use h k in simp_all)
next
  show "map_sum fst fst
        (create_pub_listing example_pandoc [] ''publications.yml'' ''@book{b}'' ''Stephens'')
      = Inl NameError"
    by code_simp
next
  show "map_sum fst (all_articles_yaml_lines \<circ> snd)
        (create_pub_listing example_pandoc [] ''publications.yml''
           ''@book{a}\<newline>@book{b}'' ''Stephens'')
      = Inr [''- author:'', ''  - family: Stephens'', ''    given: D.'', ''  id: a'',
             ''  publisher: ACM'', ''  type: conference'',
             ''  type-title: '*ACM*'' @ [CHR 0x27], ''  position: '1/1'' @ [CHR 0x27],
             ''- author:'', ''  - family: Smith'', ''    given: J.'', ''  - family: Stephens'',
             ''    given: D.'', ''  id: b'', ''  type: conference'',
             ''  type-title: '*ACM*'' @ [CHR 0x27], ''  position: '2/2'' @ [CHR 0x27]]"
    by code_simp
qed

theorem publisher_not_reset_witness:
  "example_pandoc ''@book{b}'' =
     Inr [''---'', ''nocite: all'', ''references:'', ''- author:'', ''  - family: Smith'',
          ''    given: J.'', ''  - family: Stephens'', ''    given: D.'', ''  id: b'',
          ''  type: book'', ''---'', '''']
   \<and> declares ''  type: book'' ''book''
   \<and> list_all (\<lambda>l. kind_of l \<noteq> Publisher \<and> kind_of l \<noteq> Type)
        [''- author:'', ''  - family: Smith'', ''    given: J.'', ''  - family: Stephens'',
         ''    given: D.'', ''  id: b'']
   \<and> (\<exists>s. process_entry example_pandoc ''Stephens'' ''@book{b}'' (initial [])
          = Inl (NameError, s))
   \<and> (\<exists>s a b. process_entry example_pandoc ''Stephens'' ''@book{b}''
                 ((initial [])\<lparr>publisher := Some ''ACM''\<rparr>) = Inr s
          \<and> container_title s = ''ACM''
          \<and> all_articles_yaml_lines s = a @ type_title_lines ''ACM'' @ b)"
proof -
  let ?out = "[''---'', ''nocite: all'', ''references:'', ''- author:'', ''  - family: Smith'',
          ''    given: J.'', ''  - family: Stephens'', ''    given: D.'', ''  id: b'',
          ''  type: book'', ''---'', '''']"
  let ?pre = "[''- author:'', ''  - family: Smith'', ''    given: J.'', ''  - family: Stephens'',
         ''    given: D.'', ''  id: b'']"
  have o: "example_pandoc ''@book{b}'' = Inr ?out" by (simp add: example_pandoc_def)
  have b: "body_lines ?out = ?pre @ ''  type: book'' # []" by (simp add: body_lines_def)
  have d: "declares ''  type: book'' ''book''" by code_simp
  have l: "list_all (\<lambda>l. kind_of l \<noteq> Publisher \<and> kind_of l \<noteq> Type) ?pre" by code_simp
  then have p: "\<forall>l\<in>set ?pre. kind_of l \<noteq> Publisher \<and> kind_of l \<noteq> Type"
    unfolding list_all_iff .
  have n: "publisher (initial []) = None" by (simp add: initial_def)
  have e: "\<forall>l\<in>set ([]::string list). kind_of l \<noteq> Container_Title \<and> kind_of l \<noteq> Type"
    by simp
  have s: "publisher ((initial [])\<lparr>publisher := Some ''ACM''\<rparr>) = Some ''ACM''" by simp
  have i: "all_articles_yaml_lines ((initial [])\<lparr>publisher := Some ''ACM''\<rparr>) = []"
    by (simp add: initial_def)
  from publisher_not_reset
    [where pandoc = example_pandoc and e = "''@book{b}''" and out = ?out and pre = ?pre
      and tline = "''  type: book''" and post = "[]" and st = "initial []"
      and author = "''Stephens''"] o b d p n
  have x: "\<exists>s. process_entry example_pandoc ''Stephens'' ''@book{b}'' (initial [])
          = Inl (NameError, s)"
    by blast
  from publisher_not_reset
    [where pandoc = example_pandoc and e = "''@book{b}''" and out = ?out and pre = ?pre
      and tline = "''  type: book''" and post = "[]"
      and st = "(initial [])\<lparr>publisher := Some ''ACM''\<rparr>"
      and author = "''Stephens''" and p = "''ACM''"] o b d p e s
  have "\<exists>s a b. process_entry example_pandoc ''Stephens'' ''@book{b}''
                 ((initial [])\<lparr>publisher := Some ''ACM''\<rparr>) = Inr s
          \<and> container_title s = ''ACM''
          \<and> all_articles_yaml_lines s =
             all_articles_yaml_lines ((initial [])\<lparr>publisher := Some ''ACM''\<rparr>)
               @ a @ type_title_lines ''ACM'' @ b"
    by blast
  then have y: "\<exists>s a b. process_entry example_pandoc ''Stephens'' ''@book{b}''
                 ((initial [])\<lparr>publisher := Some ''ACM''\<rparr>) = Inr s
          \<and> container_title s = ''ACM''
          \<and> all_articles_yaml_lines s = a @ type_title_lines ''ACM'' @ b"
    unfolding i by simp
  from o d l x y show ?thesis by blast
qed

text \<open>
  C10. In the title of a completed run, the first number counts the rendered entries
  with the target author first-listed, and the two numbers add up to the number of all
  entries, those on which the formatter failed included. With a formatter that renders
  both entries of a bibliography, each with the target author first, the title shows
  \<open>2 + 0\<close>; with one that differs only in failing on the second entry it shows
  \<open>1 + 1\<close>.
\<close>

theorem total_counts_failed_entries:
  "(create_pub_listing pandoc fs yml_name bib_content author = Inr (written, st') \<longrightarrow>
      qmd written =
        unlines (qmd_template
          (title_counts
             (int (length (filter (\<lambda>e. \<not> failed pandoc e \<and> first_listed pandoc author e)
                (split_entries bib_content))))
             (int (length (filter (failed pandoc) (split_entries bib_content))
                + length (filter (\<lambda>e. \<not> failed pandoc e) (split_entries bib_content)))))
          yml_name))
   \<and> first_listed example_pandoc ''Stephens'' ''@article{c}''
   \<and> failed example_failing ''@article{c}''
   \<and> example_failing ''@book{a}'' = example_pandoc ''@book{a}''
   \<and> split_entries ''@book{a}\<newline>@article{c}'' = [''@book{a}'', ''@article{c}'']
   \<and> map_sum fst (qmd \<circ> fst)
        (create_pub_listing example_pandoc [] ''publications.yml''
           ''@book{a}\<newline>@article{c}'' ''Stephens'')
       = Inr (unlines (qmd_template ''2 + 0'' ''publications.yml''))
   \<and> map_sum fst (qmd \<circ> fst)
        (create_pub_listing example_failing [] ''publications.yml''
           ''@book{a}\<newline>@article{c}'' ''Stephens'')
       = Inr (unlines (qmd_template ''1 + 1'' ''publications.yml''))"
proof (intro conjI impI)
  assume "create_pub_listing pandoc fs yml_name bib_content author = Inr (written, st')"
  then obtain s0
    where run: "process_entries pandoc author (split_entries bib_content) (initial fs) = Inr s0"
      and q: "qmd written =
      unlines (qmd_template
        (title_counts (first_author_count s0) (int (length (split_entries bib_content))))
        yml_name)"
    by (rule create_pub_listing_Inr)
  have "filter (\<lambda>e. \<not> failed pandoc e \<and> first_listed pandoc author e) (split_entries bib_content)
      = filter (first_listed pandoc author) (split_entries bib_content)"
    by (rule filter_cong) (auto dest: first_listed_rendered)
  with process_entries_count [OF run]
  have c: "first_author_count s0 =
      int (length (filter (\<lambda>e. \<not> failed pandoc e \<and> first_listed pandoc author e)
        (split_entries bib_content)))"
    by (simp add: initial_def)
  have n: "length (split_entries bib_content) =
      length (filter (failed pandoc) (split_entries bib_content))
        + length (filter (\<lambda>e. \<not> failed pandoc e) (split_entries bib_content))"
    by (rule sum_length_filter_compl [symmetric])
  from q c n show "qmd written =
        unlines (qmd_template
          (title_counts
             (int (length (filter (\<lambda>e. \<not> failed pandoc e \<and> first_listed pandoc author e)
                (split_entries bib_content))))
             (int (length (filter (failed pandoc) (split_entries bib_content))
                + length (filter (\<lambda>e. \<not> failed pandoc e) (split_entries bib_content)))))
          yml_name)"
    by simp
next
  show "first_listed example_pandoc ''Stephens'' ''@article{c}''" by code_simp
next
  show "failed example_failing ''@article{c}''"
    by (simp add: failed_def example_failing_def)
next
  show "example_failing ''@book{a}'' = example_pandoc ''@book{a}''"
    by (simp add: example_failing_def)
next
  show "split_entries ''@book{a}\<newline>@article{c}'' = [''@book{a}'', ''@article{c}'']"
    by code_simp
next
  show "map_sum fst (qmd \<circ> fst)
        (create_pub_listing example_pandoc [] ''publications.yml''
           ''@book{a}\<newline>@article{c}'' ''Stephens'')
       = Inr (unlines (qmd_template ''2 + 0'' ''publications.yml''))"
    by code_simp
next
  show "map_sum fst (qmd \<circ> fst)
        (create_pub_listing example_failing [] ''publications.yml''
           ''@book{a}\<newline>@article{c}'' ''Stephens'')
       = Inr (unlines (qmd_template ''1 + 1'' ''publications.yml''))"
    by code_simp
qed

theorem total_counts_failed_entries_witness:
  "filter (\<lambda>e. \<not> failed example_failing e \<and> first_listed example_failing ''Stephens'' e)
      [''@book{a}'', ''@article{c}''] = [''@book{a}'']
   \<and> filter (failed example_failing) [''@book{a}'', ''@article{c}''] = [''@article{c}'']
   \<and> filter (\<lambda>e. \<not> failed example_failing e) [''@book{a}'', ''@article{c}''] = [''@book{a}'']
   \<and> title_counts 1 2 = ''1 + 1''
   \<and> (\<exists>written st'.
         create_pub_listing example_failing [] ''publications.yml''
           ''@book{a}\<newline>@article{c}'' ''Stephens'' = Inr (written, st')
         \<and> qmd written = unlines (qmd_template (title_counts 1 2) ''publications.yml''))"
proof -
  let ?bib = "''@book{a}\<newline>@article{c}''"
  let ?run = "create_pub_listing example_failing [] ''publications.yml'' ?bib ''Stephens''"
  note t = total_counts_failed_entries
  have sp: "split_entries ?bib = [''@book{a}'', ''@article{c}'']" using t by blast
  have f1: "filter (\<lambda>e. \<not> failed example_failing e \<and> first_listed example_failing ''Stephens'' e)
      [''@book{a}'', ''@article{c}''] = [''@book{a}'']" by code_simp
  have f2: "filter (failed example_failing) [''@book{a}'', ''@article{c}''] = [''@article{c}'']"
    by code_simp
  have f3: "filter (\<lambda>e. \<not> failed example_failing e) [''@book{a}'', ''@article{c}''] = [''@book{a}'']"
    by code_simp
  have tc: "title_counts 1 2 = ''1 + 1''" by code_simp
  have "map_sum fst (qmd \<circ> fst) ?run
       = Inr (unlines (qmd_template ''1 + 1'' ''publications.yml''))"
    using t by blast
  then obtain written st' where r: "?run = Inr (written, st')"
    by (cases ?run) auto
  from total_counts_failed_entries
    [of example_failing "[]" "''publications.yml''" ?bib "''Stephens''" written st'] r
  have "qmd written =
        unlines (qmd_template
          (title_counts
             (int (length (filter (\<lambda>e. \<not> failed example_failing e \<and> first_listed example_failing ''Stephens'' e)
                (split_entries ?bib))))
             (int (length (filter (failed example_failing) (split_entries ?bib))
                + length (filter (\<lambda>e. \<not> failed example_failing e) (split_entries ?bib)))))
          ''publications.yml'')"
    by blast
  then have "qmd written = unlines (qmd_template (title_counts 1 2) ''publications.yml'')"
    unfolding sp f1 f2 f3 by simp
  with r have "\<exists>written st'. ?run = Inr (written, st')
         \<and> qmd written = unlines (qmd_template (title_counts 1 2) ''publications.yml'')"
    by blast
  with f1 f2 f3 tc show ?thesis by blast
qed

end
